theory Spec2Isabelle
  imports Complex_Main "HOL-Library.Log_Nat" "HOL-Library.Word"
begin

section \<open>Data model of the audio looper\<close>

text \<open>
  The looper is a C program.  Its integers are modelled with their widths (\<open>uint32_t\<close> and
  \<open>jack_nframes_t\<close> as \<open>32 word\<close>, \<open>uint8_t\<close> as \<open>8 word\<close>), so that every addition wraps
  as it does in C.  Audio samples are single-precision floating-point numbers; their
  arithmetic is modelled in the next section.

  Arrays indexed by a run-time value are total functions from an index; every function of
  the model checks the index against the declared array bound first and returns the fault
  \<open>OutOfBounds\<close> where the C code would read or write outside the array.  A dereference of
  a \<open>NULL\<close> pointer is the fault \<open>NullDeref\<close>.
\<close>

type_synonym u8 = "8 word"
type_synonym u32 = "32 word"

definition NUM_GROUPS :: nat where "NUM_GROUPS = 4"
definition NUM_TRACKS :: nat where "NUM_TRACKS = 16"
definition SAMPLE_LIMIT :: u32 where "SAMPLE_LIMIT = 44100 * 60"

datatype fault = NullDeref | OutOfBounds | SignedOverflow

datatype TrackState =
  TRACK_STATE_OFF | TRACK_STATE_PLAYBACK | TRACK_STATE_RECORDING | TRACK_STATE_MUTE

datatype SystemEvents =
  SYSTEM_EVENT_PASSTHROUGH | SYSTEM_EVENT_RECORD_TRACK | SYSTEM_EVENT_OVERDUB_TRACK
  | SYSTEM_EVENT_PLAY_TRACK | SYSTEM_EVENT_MUTE_TRACK | SYSTEM_EVENT_UNMUTE_TRACK
  | SYSTEM_EVENT_ADD_TRACK_TO_GROUP | SYSTEM_EVENT_REMOVE_TRACK_FROM_GROUP
  | SYSTEM_EVENT_SET_ACTIVE_GROUP

datatype SystemStates =
  SYSTEM_STATE_PASSTHROUGH | SYSTEM_STATE_PLAYBACK | SYSTEM_STATE_RECORDING
  | SYSTEM_STATE_OVERDUBBING | SYSTEM_STATE_CALIBRATION

section \<open>Audio samples: single-precision floating point\<close>

text \<open>
  An audio sample (\<open>jack_default_audio_sample_t\<close>) is a C \<open>float\<close>, here an IEEE 754
  binary32 number, and a \<open>double\<close> is a binary64 number.  Every operation is evaluated in
  the format of its C type and rounds to nearest, ties to even (\<open>FLT_EVAL_METHOD\<close> 0 and
  the default rounding mode, as on the ARM processor of the Raspberry Pi).  A number of
  either format is modelled by its value: a real number, plus or minus infinity, or
  not-a-number.  The two zeros are one value and the not-a-numbers are one value; the
  looper only adds, scales and compares samples, which tells neither apart.

  \<open>round_even\<close> rounds a real number to the nearest integer, a tie to the even one.
  \<open>pow2 e\<close> is the power \<open>2 ^ e\<close> for an integer \<open>e\<close>, and \<open>floor_log2 x\<close> is, for a
  positive \<open>x\<close>, the integer \<open>k\<close> with \<open>2 ^ k \<le> x < 2 ^ (k + 1)\<close>, computed from the number
  of binary digits of an integer (\<open>bitlen\<close>).  \<open>round_to p emin\<close> rounds a real number to the nearest number with a significand of \<open>p\<close>
  bits whose unit in the last place is \<open>2 ^ emin\<close> at least, the exponent being unbounded
  from above.  The finite binary32 numbers are the numbers up to \<open>FLT_MAX\<close> that
  \<open>round_to 24 (-149)\<close> leaves as they are; a binary64 result is \<open>round_to 53 (-1074)\<close> of
  the exact result.
\<close>

definition FLT_MAX :: real where
  "FLT_MAX = 340282346638528859811704183484516925440"

definition round_even :: "real \<Rightarrow> int" where
  "round_even y =
    (let f = \<lfloor>y\<rfloor> in
     if y - of_int f < 1 / 2 then f
     else if 1 / 2 < y - of_int f then f + 1
     else if even f then f else f + 1)"

definition pow2 :: "int \<Rightarrow> real" where
  "pow2 e = (if 0 \<le> e then 2 ^ nat e else 1 / 2 ^ nat (- e))"

definition floor_log2 :: "real \<Rightarrow> int" where
  "floor_log2 x = (if 1 \<le> x then bitlen \<lfloor>x\<rfloor> - 1 else - bitlen (\<lceil>1 / x\<rceil> - 1))"

definition ulp_exponent :: "int \<Rightarrow> int \<Rightarrow> real \<Rightarrow> int" where
  "ulp_exponent p emin x = max emin (floor_log2 \<bar>x\<bar> - p + 1)"

definition round_to :: "int \<Rightarrow> int \<Rightarrow> real \<Rightarrow> real" where
  "round_to p emin x =
    (if x = 0 then 0
     else of_int (round_even (x / pow2 (ulp_exponent p emin x))) * pow2 (ulp_exponent p emin x))"

definition representable32 :: "real \<Rightarrow> bool" where
  "representable32 x = (round_to 24 (- 149) x = x \<and> \<bar>x\<bar> \<le> FLT_MAX)"

typedef finite32 = "{x :: real. representable32 x}"
  by (rule exI [of _ 0]) (simp add: representable32_def round_to_def FLT_MAX_def)

definition valueOf :: "finite32 \<Rightarrow> real" where
  "valueOf a = Rep_finite32 a"

datatype sample = Finite finite32 | PlusInf | MinusInf | NaN

text \<open>
  \<open>float32 x\<close> is the \<open>float\<close> that a real result \<open>x\<close> is rounded to: the result rounded
  with an unbounded exponent, and an infinity when that exceeds \<open>FLT_MAX\<close> in magnitude.
  It is also the conversion of a \<open>double\<close> to \<open>float\<close> and the value of a constant such
  as \<open>0\<close> stored into a \<open>float\<close>.
\<close>

definition float32 :: "real \<Rightarrow> sample" where
  "float32 x =
    (let r = round_to 24 (- 149) x in
     if FLT_MAX < r then PlusInf
     else if r < - FLT_MAX then MinusInf
     else Finite (Abs_finite32 r))"

text \<open>The sum of two \<open>float\<close>s, \<open>a + b\<close>.\<close>

fun float_add :: "sample \<Rightarrow> sample \<Rightarrow> sample" where
  "float_add (Finite a) (Finite b) = float32 (valueOf a + valueOf b)"
| "float_add (Finite a) PlusInf = PlusInf"
| "float_add (Finite a) MinusInf = MinusInf"
| "float_add PlusInf (Finite b) = PlusInf"
| "float_add PlusInf PlusInf = PlusInf"
| "float_add MinusInf (Finite b) = MinusInf"
| "float_add MinusInf MinusInf = MinusInf"
| "float_add PlusInf MinusInf = NaN"
| "float_add MinusInf PlusInf = NaN"
| "float_add NaN y = NaN"
| "float_add x NaN = NaN"

text \<open>
  The \<open>double\<close> arithmetic of the limiter.  \<open>to_double\<close> rounds a real result to binary64;
  it is applied to the constant \<open>0.9\<close> and to products of a finite \<open>float\<close> by \<open>0.9\<close>,
  which are far below the largest \<open>double\<close>.  \<open>DOUBLE_0_9\<close> is the constant \<open>0.9\<close>, and
  \<open>limiterThreshold\<close> is the expression \<open>0.9 * FLT_MAX\<close>, a product of two \<open>double\<close>s.
\<close>

definition to_double :: "real \<Rightarrow> real" where
  "to_double x = round_to 53 (- 1074) x"

definition DOUBLE_0_9 :: real where
  "DOUBLE_0_9 = to_double (9 / 10)"

definition limiterThreshold :: real where
  "limiterThreshold = to_double (DOUBLE_0_9 * FLT_MAX)"

text \<open>
  The test \<open>sum > 0.9 * FLT_MAX\<close>, in which \<open>sum\<close> is converted to \<open>double\<close> (exactly), and
  the assignment \<open>sum *= 0.9\<close>, in which the product is a \<open>double\<close> that is converted back
  to \<open>float\<close>.  A comparison with not-a-number is false.
\<close>

fun exceedsLimit :: "sample \<Rightarrow> bool" where
  "exceedsLimit (Finite a) = (limiterThreshold < valueOf a)"
| "exceedsLimit PlusInf = True"
| "exceedsLimit MinusInf = False"
| "exceedsLimit NaN = False"

fun scale09 :: "sample \<Rightarrow> sample" where
  "scale09 (Finite a) = float32 (to_double (valueOf a * DOUBLE_0_9))"
| "scale09 PlusInf = PlusInf"
| "scale09 MinusInf = MinusInf"
| "scale09 NaN = NaN"

section \<open>The state of the looper\<close>

text \<open>
  \<open>struct Track\<close>.  The field \<open>state\<close> of the C struct is \<open>trackState\<close> here (the looper
  has a field \<open>state\<close> of its own).  The right channel of a mono track is \<open>NULL\<close>, which is
  \<open>None\<close>.  The field \<open>maxIdx\<close> and the debugging fields \<open>pulseIdx\<close> and \<open>pulseIdxArr\<close> are
  read by none of the functions modelled below and are left out.
\<close>

record Track =
  channelLeft :: "sample list"
  channelRight :: "sample list option"
  currIdx :: u32
  startIdx :: u32
  endIdx :: u32
  trackState :: TrackState
  repeat :: bool

text \<open>
  \<open>struct MasterLooper\<close>.  \<open>groupedTracks[g][t]\<close> is a pointer that is either \<open>NULL\<close> or
  \<open>&tracks[t]\<close>: the only stores of a non-\<open>NULL\<close> value, in \<open>startRecording\<close> and
  \<open>assignTrackToGroup\<close>, write \<open>&looper->tracks[cc.track]\<close> into
  \<open>groupedTracks[cc.group][cc.track]\<close>.  The model therefore keeps one boolean per slot,
  \<open>True\<close> for the pointer to the track of the same index.  The JACK ports, the client, the
  thread handle, the serial descriptor and the counters used only for printing are left
  out.
\<close>

record MasterLooper =
  tracks :: "nat \<Rightarrow> Track"
  groupedTracks :: "nat \<Rightarrow> nat \<Rightarrow> bool"
  masterLength :: "nat \<Rightarrow> u32"
  masterCurrIdx :: u32
  rec_frame_delay :: u32
  play_frame_delay :: u32
  selectedTrack :: u8
  selectedGroup :: u8
  min_serial_data_length :: u8
  state :: SystemStates
  monitoringOff :: bool
  controlLocked :: bool
  exitNow :: bool

section \<open>The position engine: \<open>updateIndices\<close>\<close>

text \<open>
  One iteration of the \<open>while (idx < NUM_TRACKS)\<close> loop of \<open>updateIndices\<close>
  (\<open>track_manager.c\<close>).  The branch for the selected track is taken in the system states
  \<open>SYSTEM_STATE_CALIBRATION\<close> and \<open>SYSTEM_STATE_RECORDING\<close>, as the condition is written in
  that file.
\<close>

definition updateTrackIndex :: "nat \<Rightarrow> u8 \<Rightarrow> u32 \<Rightarrow> nat \<Rightarrow> MasterLooper \<Rightarrow> MasterLooper" where
  "updateTrackIndex sg st nframes idx L =
    (if groupedTracks L sg idx \<and> trackState (tracks L idx) \<noteq> TRACK_STATE_OFF then
      (let t1 = (tracks L idx)\<lparr>currIdx := currIdx (tracks L idx) + nframes\<rparr> in
       if unat st = idx \<and>
          (state L = SYSTEM_STATE_CALIBRATION \<or> state L = SYSTEM_STATE_RECORDING)
       then
         (let full = (currIdx t1 > SAMPLE_LIMIT);
              t2 = (if full then t1\<lparr>currIdx := SAMPLE_LIMIT\<rparr> else t1);
              L2 = (if full then L\<lparr>state := SYSTEM_STATE_PLAYBACK\<rparr> else L);
              t3 = (if currIdx t2 > endIdx t2 then t2\<lparr>endIdx := currIdx t2\<rparr> else t2);
              L3 = (if endIdx t3 > masterLength L2 sg
                    then L2\<lparr>masterLength := (masterLength L2)(sg := endIdx t3)\<rparr> else L2)
          in L3\<lparr>tracks := (tracks L3)(idx := t3)\<rparr>)
       else
         (let t2 = (if repeat t1 \<and> currIdx t1 > endIdx t1
                    then t1\<lparr>currIdx := startIdx t1\<rparr> else t1);
              t3 = (if masterCurrIdx L > masterLength L sg
                    then t2\<lparr>currIdx := (if repeat t2 then startIdx t2 else 0)\<rparr> else t2)
          in L\<lparr>tracks := (tracks L)(idx := t3)\<rparr>))
     else L)"

function updateIndices_loop :: "nat \<Rightarrow> u8 \<Rightarrow> u32 \<Rightarrow> nat \<Rightarrow> MasterLooper \<Rightarrow> MasterLooper" where
  "updateIndices_loop sg st nframes idx L =
    (if idx < NUM_TRACKS
     then updateIndices_loop sg st nframes (idx + 1) (updateTrackIndex sg st nframes idx L)
     else L)"
  by pat_completeness auto
termination
  by (relation "measure (\<lambda>(sg, st, nframes, idx, L). NUM_TRACKS - idx)") auto

declare updateIndices_loop.simps [simp del]

definition updateIndices :: "MasterLooper \<Rightarrow> u32 \<Rightarrow> fault + MasterLooper" where
  "updateIndices L nframes =
    (let sg = unat (selectedGroup L); st = selectedTrack L in
     if NUM_GROUPS \<le> sg then Inl OutOfBounds
     else
       (let m = masterCurrIdx L + nframes;
            L1 = L\<lparr>masterCurrIdx := (if m > SAMPLE_LIMIT then SAMPLE_LIMIT else m)\<rparr>;
            L2 = updateIndices_loop sg st nframes 0 L1
        in Inr (if state L2 = SYSTEM_STATE_PLAYBACK \<and> masterCurrIdx L2 > masterLength L2 sg
                then L2\<lparr>masterCurrIdx := 0\<rparr> else L2)))"

section \<open>The control state machine\<close>

text \<open>
  \<open>struct ControlContext\<close>, the static variable \<open>cc\<close> of the control file: the command
  decoded last, waiting to be applied by the next process cycle.
\<close>

record ControlContext =
  cc_track :: u8
  cc_group :: u8
  cc_event :: SystemEvents
  cc_repeat :: bool
  cc_updated :: bool

text \<open>
  \<open>getNumActiveTracks\<close> reads \<open>groupedTracks[selectedGroup][track]->endIdx\<close> for every
  track without a \<open>NULL\<close> test.
\<close>

function getNumActiveTracks_loop :: "MasterLooper \<Rightarrow> nat \<Rightarrow> nat \<Rightarrow> int \<Rightarrow> fault + int" where
  "getNumActiveTracks_loop L sg track activeTracks =
    (if track < NUM_TRACKS then
       (if \<not> groupedTracks L sg track then Inl NullDeref
        else getNumActiveTracks_loop L sg (track + 1)
               (if endIdx (tracks L track) > 0 then activeTracks + 1 else activeTracks))
     else Inr activeTracks)"
  by pat_completeness auto
termination
  by (relation "measure (\<lambda>(L, sg, track, activeTracks). NUM_TRACKS - track)") auto

declare getNumActiveTracks_loop.simps [simp del]

definition getNumActiveTracks :: "MasterLooper \<Rightarrow> fault + int" where
  "getNumActiveTracks L =
    (if NUM_GROUPS \<le> unat (selectedGroup L) then Inl OutOfBounds
     else getNumActiveTracks_loop L (unat (selectedGroup L)) 0 0)"

definition startRecording :: "ControlContext \<Rightarrow> MasterLooper \<Rightarrow> fault + MasterLooper" where
  "startRecording cc L =
    (let g = unat (cc_group cc); t = unat (cc_track cc) in
     if NUM_GROUPS \<le> g \<or> NUM_TRACKS \<le> t then Inl OutOfBounds
     else
       (let L1 = (if \<not> groupedTracks L g t
                  then L\<lparr>groupedTracks := (groupedTracks L)(g := (groupedTracks L g)(t := True))\<rparr>
                  else L)
        in case getNumActiveTracks L1 of
             Inl e \<Rightarrow> Inl e
           | Inr numTracks \<Rightarrow>
              (let L2 = (if numTracks = 0 \<or> cc_group cc \<noteq> selectedGroup L1
                            \<or> (numTracks = 1 \<and> selectedTrack L1 = cc_track cc)
                         then L1\<lparr>masterCurrIdx := 0,
                                 masterLength := (masterLength L1)(g := 0)\<rparr>
                         else L1);
                   tr = (tracks L2 t)\<lparr>repeat := False, endIdx := 0,
                           currIdx := masterCurrIdx L2, startIdx := masterCurrIdx L2,
                           trackState := TRACK_STATE_RECORDING\<rparr>
               in Inr (L2\<lparr>tracks := (tracks L2)(t := tr),
                          selectedGroup := cc_group cc, selectedTrack := cc_track cc,
                          state := SYSTEM_STATE_RECORDING\<rparr>))))"

definition startOverdubbing :: "ControlContext \<Rightarrow> MasterLooper \<Rightarrow> fault + MasterLooper" where
  "startOverdubbing cc L =
    (let t = unat (cc_track cc) in
     if NUM_TRACKS \<le> t then Inl OutOfBounds
     else if trackState (tracks L t) \<noteq> TRACK_STATE_PLAYBACK then Inr L
     else Inr (L\<lparr>selectedTrack := cc_track cc,
                 tracks := (tracks L)(t := (tracks L t)\<lparr>trackState := TRACK_STATE_RECORDING\<rparr>),
                 state := SYSTEM_STATE_OVERDUBBING\<rparr>))"

text \<open>
  \<open>stopRecording\<close> and \<open>stopOverdubbing\<close> first overwrite \<open>cc.track\<close> and \<open>cc.group\<close>
  with the looper's selected track and group; the control context is part of the result.
\<close>

definition stopRecording ::
  "ControlContext \<Rightarrow> MasterLooper \<Rightarrow> fault + ControlContext \<times> MasterLooper" where
  "stopRecording cc0 L =
    (let cc = cc0\<lparr>cc_track := selectedTrack L, cc_group := selectedGroup L\<rparr>;
         g = unat (cc_group cc); t = unat (cc_track cc) in
     if NUM_GROUPS \<le> g \<or> NUM_TRACKS \<le> t then Inl OutOfBounds
     else
       (let tr1 = (if cc_repeat cc then (tracks L t)\<lparr>repeat := cc_repeat cc\<rparr> else tracks L t);
            tr2 = tr1\<lparr>endIdx := currIdx tr1 + play_frame_delay L\<rparr>;
            L1 = (if masterLength L g < masterCurrIdx L
                  then L\<lparr>masterLength := (masterLength L)(g := masterCurrIdx L + play_frame_delay L),
                         masterCurrIdx := 0\<rparr>
                  else L)
        in Inr (cc, L1\<lparr>state := SYSTEM_STATE_PLAYBACK,
                         tracks := (tracks L1)(t := tr2\<lparr>trackState := TRACK_STATE_PLAYBACK\<rparr>)\<rparr>)))"

definition stopOverdubbing ::
  "ControlContext \<Rightarrow> MasterLooper \<Rightarrow> fault + ControlContext \<times> MasterLooper" where
  "stopOverdubbing cc0 L =
    (let cc = cc0\<lparr>cc_track := selectedTrack L, cc_group := selectedGroup L\<rparr>;
         g = unat (cc_group cc); t = unat (cc_track cc) in
     if NUM_GROUPS \<le> g \<or> NUM_TRACKS \<le> t then Inl OutOfBounds
     else
       (let tr1 = (if cc_repeat cc then (tracks L t)\<lparr>repeat := cc_repeat cc\<rparr> else tracks L t);
            tr2 = (if endIdx tr1 < currIdx tr1
                   then tr1\<lparr>endIdx := currIdx tr1 + play_frame_delay L\<rparr> else tr1);
            L1 = (if masterLength L g < masterCurrIdx L
                  then L\<lparr>masterLength := (masterLength L)(g := masterCurrIdx L + play_frame_delay L),
                         masterCurrIdx := 0\<rparr>
                  else L)
        in Inr (cc, L1\<lparr>state := SYSTEM_STATE_PLAYBACK,
                         tracks := (tracks L1)(t := tr2\<lparr>trackState := TRACK_STATE_PLAYBACK\<rparr>)\<rparr>)))"

definition resetSystem :: "MasterLooper \<Rightarrow> MasterLooper" where
  "resetSystem L =
    L\<lparr>masterLength := (\<lambda>g. if g < NUM_GROUPS then 0 else masterLength L g),
      masterCurrIdx := 0, selectedTrack := 0, selectedGroup := 0,
      monitoringOff := False, controlLocked := False,
      tracks := (\<lambda>t. if t < NUM_TRACKS
                      then (tracks L t)\<lparr>trackState := TRACK_STATE_OFF, endIdx := 0,
                              currIdx := 0, startIdx := 0, repeat := False\<rparr>
                      else tracks L t),
      groupedTracks := (\<lambda>g t. if g < NUM_GROUPS \<and> t < NUM_TRACKS then False
                               else groupedTracks L g t),
      state := SYSTEM_STATE_PASSTHROUGH\<rparr>"

definition muteTrack :: "ControlContext \<Rightarrow> MasterLooper \<Rightarrow> fault + MasterLooper" where
  "muteTrack cc L =
    (let t = unat (cc_track cc) in
     if NUM_TRACKS \<le> t then Inl OutOfBounds
     else if trackState (tracks L t) = TRACK_STATE_OFF then Inr L
     else Inr (L\<lparr>selectedTrack := cc_track cc,
                 tracks := (tracks L)(t := (tracks L t)\<lparr>trackState := TRACK_STATE_MUTE\<rparr>)\<rparr>))"

definition unmuteTrack :: "ControlContext \<Rightarrow> MasterLooper \<Rightarrow> fault + MasterLooper" where
  "unmuteTrack cc L =
    (let t = unat (cc_track cc) in
     if NUM_TRACKS \<le> t then Inl OutOfBounds
     else if trackState (tracks L t) = TRACK_STATE_OFF then Inr L
     else Inr (L\<lparr>selectedTrack := cc_track cc,
                 tracks := (tracks L)(t := (tracks L t)\<lparr>trackState := TRACK_STATE_PLAYBACK\<rparr>)\<rparr>))"

definition assignTrackToGroup :: "ControlContext \<Rightarrow> MasterLooper \<Rightarrow> fault + MasterLooper" where
  "assignTrackToGroup cc L =
    (let g = unat (cc_group cc); t = unat (cc_track cc) in
     if NUM_GROUPS \<le> g \<or> NUM_TRACKS \<le> t then Inl OutOfBounds
     else Inr (L\<lparr>groupedTracks := (groupedTracks L)(g := (groupedTracks L g)(t := True))\<rparr>))"

definition removeTrackFromGroup :: "ControlContext \<Rightarrow> MasterLooper \<Rightarrow> fault + MasterLooper" where
  "removeTrackFromGroup cc L =
    (let g = unat (cc_group cc); t = unat (cc_track cc) in
     if NUM_GROUPS \<le> g \<or> NUM_TRACKS \<le> t then Inl OutOfBounds
     else Inr (L\<lparr>groupedTracks := (groupedTracks L)(g := (groupedTracks L g)(t := False))\<rparr>))"

text \<open>
  \<open>setActiveGroup\<close>: the first loop dereferences every slot of the new group without a
  \<open>NULL\<close> test; the second one tests the slot first.
\<close>

function setActiveGroup_mute :: "nat \<Rightarrow> nat \<Rightarrow> MasterLooper \<Rightarrow> fault + MasterLooper" where
  "setActiveGroup_mute sg track L =
    (if track < NUM_TRACKS then
       (if \<not> groupedTracks L sg track then Inl NullDeref
        else setActiveGroup_mute sg (track + 1)
               (if trackState (tracks L track) \<noteq> TRACK_STATE_OFF
                then L\<lparr>tracks := (tracks L)(track := (tracks L track)\<lparr>trackState := TRACK_STATE_MUTE\<rparr>)\<rparr>
                else L))
     else Inr L)"
  by pat_completeness auto
termination
  by (relation "measure (\<lambda>(sg, track, L). NUM_TRACKS - track)") auto

declare setActiveGroup_mute.simps [simp del]

function setActiveGroup_play :: "nat \<Rightarrow> nat \<Rightarrow> MasterLooper \<Rightarrow> MasterLooper" where
  "setActiveGroup_play sg track L =
    (if track < NUM_TRACKS then
       setActiveGroup_play sg (track + 1)
         (if groupedTracks L sg track \<and> trackState (tracks L track) \<noteq> TRACK_STATE_OFF
          then (let tr = (tracks L track)\<lparr>trackState := TRACK_STATE_PLAYBACK\<rparr>
                in L\<lparr>tracks := (tracks L)(track :=
                        tr\<lparr>currIdx := (if repeat tr then startIdx tr else 0)\<rparr>)\<rparr>)
          else L)
     else L)"
  by pat_completeness auto
termination
  by (relation "measure (\<lambda>(sg, track, L). NUM_TRACKS - track)") auto

declare setActiveGroup_play.simps [simp del]

definition setActiveGroup :: "ControlContext \<Rightarrow> MasterLooper \<Rightarrow> fault + MasterLooper" where
  "setActiveGroup cc L =
    (let L1 = L\<lparr>selectedGroup := cc_group cc\<rparr>; sg = unat (selectedGroup L1) in
     if NUM_GROUPS \<le> sg then Inl OutOfBounds
     else case setActiveGroup_mute sg 0 L1 of
            Inl e \<Rightarrow> Inl e
          | Inr L2 \<Rightarrow> Inr ((setActiveGroup_play sg 0 L2)\<lparr>masterCurrIdx := 0\<rparr>))"

definition updateRepeatStatus :: "ControlContext \<Rightarrow> MasterLooper \<Rightarrow> fault + MasterLooper" where
  "updateRepeatStatus cc L =
    (let t = unat (cc_track cc) in
     if NUM_TRACKS \<le> t then Inl OutOfBounds
     else
       (let L1 = L\<lparr>selectedTrack := cc_track cc\<rparr> in
        if repeat (tracks L1 t) \<noteq> cc_repeat cc
        then Inr (L1\<lparr>tracks := (tracks L1)(t := (tracks L1 t)\<lparr>repeat := cc_repeat cc\<rparr>)\<rparr>)
        else Inr L1))"

text \<open>
  The four event handlers and the dispatch on the system state.  A handler returns the
  control context together with the looper, because the two stop functions change both.
\<close>

definition keep_cc ::
  "ControlContext \<Rightarrow> fault + MasterLooper \<Rightarrow> fault + ControlContext \<times> MasterLooper" where
  "keep_cc cc r = (case r of Inl e \<Rightarrow> Inl e | Inr L \<Rightarrow> Inr (cc, L))"

fun eventHandlerPassthrough ::
  "SystemEvents \<Rightarrow> ControlContext \<Rightarrow> MasterLooper \<Rightarrow> fault + ControlContext \<times> MasterLooper" where
  "eventHandlerPassthrough SYSTEM_EVENT_RECORD_TRACK cc L = keep_cc cc (startRecording cc L)"
| "eventHandlerPassthrough event cc L = Inr (cc, L)"

fun eventHandlerPlayback ::
  "SystemEvents \<Rightarrow> ControlContext \<Rightarrow> MasterLooper \<Rightarrow> fault + ControlContext \<times> MasterLooper" where
  "eventHandlerPlayback SYSTEM_EVENT_PASSTHROUGH cc L = Inr (cc, resetSystem L)"
| "eventHandlerPlayback SYSTEM_EVENT_RECORD_TRACK cc L = keep_cc cc (startRecording cc L)"
| "eventHandlerPlayback SYSTEM_EVENT_OVERDUB_TRACK cc L = keep_cc cc (startOverdubbing cc L)"
| "eventHandlerPlayback SYSTEM_EVENT_PLAY_TRACK cc L = keep_cc cc (updateRepeatStatus cc L)"
| "eventHandlerPlayback SYSTEM_EVENT_MUTE_TRACK cc L = keep_cc cc (muteTrack cc L)"
| "eventHandlerPlayback SYSTEM_EVENT_UNMUTE_TRACK cc L = keep_cc cc (unmuteTrack cc L)"
| "eventHandlerPlayback SYSTEM_EVENT_ADD_TRACK_TO_GROUP cc L = keep_cc cc (assignTrackToGroup cc L)"
| "eventHandlerPlayback SYSTEM_EVENT_REMOVE_TRACK_FROM_GROUP cc L =
     keep_cc cc (removeTrackFromGroup cc L)"
| "eventHandlerPlayback SYSTEM_EVENT_SET_ACTIVE_GROUP cc L = keep_cc cc (setActiveGroup cc L)"

fun eventHandlerRecording ::
  "SystemEvents \<Rightarrow> ControlContext \<Rightarrow> MasterLooper \<Rightarrow> fault + ControlContext \<times> MasterLooper" where
  "eventHandlerRecording SYSTEM_EVENT_PASSTHROUGH cc L = Inr (cc, resetSystem L)"
| "eventHandlerRecording SYSTEM_EVENT_PLAY_TRACK cc L = stopRecording cc L"
| "eventHandlerRecording event cc L = Inr (cc, L)"

fun eventHandlerOverdubbing ::
  "SystemEvents \<Rightarrow> ControlContext \<Rightarrow> MasterLooper \<Rightarrow> fault + ControlContext \<times> MasterLooper" where
  "eventHandlerOverdubbing SYSTEM_EVENT_PASSTHROUGH cc L = Inr (cc, resetSystem L)"
| "eventHandlerOverdubbing SYSTEM_EVENT_PLAY_TRACK cc L = stopOverdubbing cc L"
| "eventHandlerOverdubbing event cc L = Inr (cc, L)"

definition controlStateMachine ::
  "SystemEvents \<Rightarrow> ControlContext \<Rightarrow> MasterLooper \<Rightarrow> fault + ControlContext \<times> MasterLooper" where
  "controlStateMachine event cc L =
    (case state L of
       SYSTEM_STATE_PASSTHROUGH \<Rightarrow> eventHandlerPassthrough event cc L
     | SYSTEM_STATE_PLAYBACK \<Rightarrow> eventHandlerPlayback event cc L
     | SYSTEM_STATE_RECORDING \<Rightarrow> eventHandlerRecording event cc L
     | SYSTEM_STATE_OVERDUBBING \<Rightarrow> eventHandlerOverdubbing event cc L
     | SYSTEM_STATE_CALIBRATION \<Rightarrow> Inr (cc, L))"

definition controlStateCheck ::
  "ControlContext \<Rightarrow> MasterLooper \<Rightarrow> fault + ControlContext \<times> MasterLooper" where
  "controlStateCheck cc L =
    (if cc_updated cc then
       (case controlStateMachine (cc_event cc) cc L of
          Inl e \<Rightarrow> Inl e
        | Inr (cc1, L1) \<Rightarrow> Inr (cc1\<lparr>cc_updated := False\<rparr>, L1))
     else Inr (cc, L))"

section \<open>The serial command decoder: \<open>processUART\<close>\<close>







section \<open>Mixing and overdubbing\<close>

text \<open>
  The limiter that \<open>overdub\<close> and \<open>doMixDown\<close> write in line after every addition:
  \<open>if (sum > 0.9 * FLT_MAX) sum *= 0.9\<close>, where \<open>sum\<close> is a \<open>float\<close>.
\<close>

definition limiter :: "sample \<Rightarrow> sample" where
  "limiter s = (if exceedsLimit s then scale09 s else s)"

text \<open>
  A result of a function with a loop that may not terminate: \<open>None\<close> when it does not
  return, a fault, or a value.
\<close>

type_synonym 'a res = "(fault + 'a) option"

definition bind_res :: "'a res \<Rightarrow> ('a \<Rightarrow> 'b res) \<Rightarrow> 'b res" where
  "bind_res m f = (case m of None \<Rightarrow> None | Some (Inl e) \<Rightarrow> Some (Inl e) | Some (Inr x) \<Rightarrow> f x)"

text \<open>
  \<open>overdub(in, track, nframes)\<close>.  A pointer into a buffer is the buffer and an element
  offset: \<open>in\<close> is \<open>(inp, ioff)\<close> and \<open>track\<close> is \<open>(trk, toff)\<close>.  The loop counter \<open>sample\<close>
  is a \<open>uint8_t\<close> compared with the 32-bit \<open>nframes\<close>; the read pointer \<open>p\<close> advances by
  one element in every iteration.  The sum \<open>*p + track[sample]\<close> is a sum of two
  \<open>float\<close>s.
\<close>

partial_function (option) overdub_loop ::
  "sample list \<Rightarrow> nat \<Rightarrow> u32 \<Rightarrow> nat \<Rightarrow> u8 \<Rightarrow> sample list \<Rightarrow> (fault + sample list) option" where
  "overdub_loop inp toff nframes p sample trk =
    (if unat sample < unat nframes then
       (if length inp \<le> p \<or> length trk \<le> toff + unat sample then Some (Inl OutOfBounds)
        else overdub_loop inp toff nframes (p + 1) (sample + 1)
               (trk[toff + unat sample :=
                         limiter (float_add (inp ! p) (trk ! (toff + unat sample)))]))
     else Some (Inr trk))"

definition overdub :: "sample list \<Rightarrow> nat \<Rightarrow> sample list \<Rightarrow> nat \<Rightarrow> u32 \<Rightarrow> sample list res" where
  "overdub inp ioff trk toff nframes = overdub_loop inp toff nframes ioff 0 trk"

text \<open>
  \<open>doMixDown\<close>: the body of the inner loop over the tracks of the selected group, for
  one sample; the inner loop; the work for one sample; the outer loop, whose counter is
  again a \<open>uint8_t\<close>.  The two debugging statements of the source (the pulse recorder and
  the \<open>printf\<close>) change no field of the model.
\<close>

definition mixTrack ::
  "MasterLooper \<Rightarrow> nat \<Rightarrow> u8 \<Rightarrow> nat \<Rightarrow> sample \<times> sample \<Rightarrow> fault + sample \<times> sample" where
  "mixTrack L sg sample idx acc =
    (case acc of (sumLeft, sumRight) \<Rightarrow>
     if NUM_GROUPS \<le> sg then Inl OutOfBounds
     else
      (let track = tracks L idx in
       if groupedTracks L sg idx \<and> currIdx track \<ge> startIdx track
          \<and> currIdx track < endIdx track
          \<and> trackState track \<noteq> TRACK_STATE_OFF \<and> trackState track \<noteq> TRACK_STATE_MUTE
       then
         (let trackIdx = currIdx track + ucast sample in
          if trackIdx \<le> endIdx track then
            (if length (channelLeft track) \<le> unat trackIdx then Inl OutOfBounds
             else
               (case channelRight track of
                  None \<Rightarrow> Inl NullDeref
                | Some cr \<Rightarrow>
                    if length cr \<le> unat trackIdx then Inl OutOfBounds
                    else Inr (limiter (float_add sumLeft (channelLeft track ! unat trackIdx)),
                              limiter (float_add sumRight (cr ! unat trackIdx)))))
          else Inr (sumLeft, sumRight))
       else Inr (sumLeft, sumRight)))"

function mixTracks_loop ::
  "MasterLooper \<Rightarrow> nat \<Rightarrow> u8 \<Rightarrow> nat \<Rightarrow> sample \<times> sample \<Rightarrow> fault + sample \<times> sample" where
  "mixTracks_loop L sg sample idx acc =
    (if idx < NUM_TRACKS then
       (case mixTrack L sg sample idx acc of
          Inl e \<Rightarrow> Inl e
        | Inr acc' \<Rightarrow> mixTracks_loop L sg sample (idx + 1) acc')
     else Inr acc)"
  by pat_completeness auto
termination
  by (relation "measure (\<lambda>(L, sg, sample, idx, acc). NUM_TRACKS - idx)") auto

declare mixTracks_loop.simps [simp del]

definition addInput :: "sample list option \<Rightarrow> u8 \<Rightarrow> sample \<Rightarrow> fault + sample" where
  "addInput inBuffer sample s =
    (case inBuffer of
       None \<Rightarrow> Inr s
     | Some b \<Rightarrow> if length b \<le> unat sample then Inl OutOfBounds
                 else Inr (limiter (float_add s (b ! unat sample))))"

definition mixSample ::
  "MasterLooper \<Rightarrow> sample list option \<Rightarrow> sample list option \<Rightarrow> u8 \<Rightarrow> fault + sample \<times> sample" where
  "mixSample L inBufferLeft inBufferRight sample =
    (case mixTracks_loop L (unat (selectedGroup L)) sample 0 (float32 0, float32 0) of
       Inl e \<Rightarrow> Inl e
     | Inr (sumLeft, sumRight) \<Rightarrow>
        (case addInput inBufferLeft sample sumLeft of
           Inl e \<Rightarrow> Inl e
         | Inr sl \<Rightarrow>
            (case addInput inBufferRight sample sumRight of
               Inl e \<Rightarrow> Inl e
             | Inr sr \<Rightarrow> Inr (sl, sr))))"

partial_function (option) doMixDown_loop ::
  "MasterLooper \<Rightarrow> sample list option \<Rightarrow> sample list option \<Rightarrow> u32 \<Rightarrow> u8
     \<Rightarrow> sample list \<times> sample list \<Rightarrow> (fault + sample list \<times> sample list) option" where
  "doMixDown_loop L inBufferLeft inBufferRight nframes sample mix =
    (if unat sample < unat nframes then
       (case mixSample L inBufferLeft inBufferRight sample of
          Inl e \<Rightarrow> Some (Inl e)
        | Inr (sl, sr) \<Rightarrow>
            if length (fst mix) \<le> unat sample \<or> length (snd mix) \<le> unat sample
            then Some (Inl OutOfBounds)
            else doMixDown_loop L inBufferLeft inBufferRight nframes (sample + 1)
                   ((fst mix)[unat sample := sl], (snd mix)[unat sample := sr]))
     else Some (Inr mix))"

definition doMixDown ::
  "MasterLooper \<Rightarrow> sample list option \<Rightarrow> sample list option \<Rightarrow> sample list \<Rightarrow> sample list
     \<Rightarrow> u32 \<Rightarrow> (sample list \<times> sample list) res" where
  "doMixDown L inBufferLeft inBufferRight mixdownBufferLeft mixdownBufferRight nframes =
     doMixDown_loop L inBufferLeft inBufferRight nframes 0 (mixdownBufferLeft, mixdownBufferRight)"

section \<open>The process cycle: \<open>playRecord\<close>\<close>

text \<open>
  The buffers of one cycle: the JACK port buffers (a right port that is absent gives a
  \<open>NULL\<close> pointer, \<open>None\<close>) and the two mixdown buffers passed by the caller.  The output
  buffers are part of the state because a copy shorter than the buffer leaves the rest of
  it as it was.
\<close>

record Buffers =
  inL :: "sample list"
  inR :: "sample list option"
  outL :: "sample list"
  outR :: "sample list option"
  mixdownLeft :: "sample list"
  mixdownRight :: "sample list"

text \<open>
  \<open>memcpy(dst + doff, src + soff, byteSize)\<close> on buffers of samples of four bytes each.
  Every size passed by \<open>playRecord\<close> is a multiple of four.
\<close>

definition memcpy :: "sample list \<Rightarrow> nat \<Rightarrow> sample list \<Rightarrow> nat \<Rightarrow> u32 \<Rightarrow> fault + sample list" where
  "memcpy dst doff src soff byteSize =
    (let n = unat byteSize div 4 in
     if length dst < doff + n \<or> length src < soff + n then Inl OutOfBounds
     else Inr (take doff dst @ take n (drop soff src) @ drop (doff + n) dst))"

definition lift_res :: "fault + 'a \<Rightarrow> 'a res" where
  "lift_res r = Some r"

text \<open>The pointer \<open>looper->groupedTracks[sg][st]\<close>, about to be dereferenced.\<close>

definition selectedTrackPtr :: "MasterLooper \<Rightarrow> fault + nat" where
  "selectedTrackPtr L =
    (let sg = unat (selectedGroup L); st = unat (selectedTrack L) in
     if NUM_GROUPS \<le> sg \<or> NUM_TRACKS \<le> st then Inl OutOfBounds
     else if \<not> groupedTracks L sg st then Inl NullDeref
     else Inr st)"

text \<open>
  The pair of copies that the recording paths repeat: the left input into the left
  channel of a track at \<open>trackIdx\<close> and, when there is a right input, the right input into
  the right channel.
\<close>

definition copyInputToTrack ::
  "MasterLooper \<Rightarrow> Buffers \<Rightarrow> nat \<Rightarrow> u32 \<Rightarrow> u32 \<Rightarrow> u32 \<Rightarrow> fault + MasterLooper" where
  "copyInputToTrack L B t trackIdx offset byteSize =
    (case memcpy (channelLeft (tracks L t)) (unat trackIdx) (inL B) (unat offset) byteSize of
       Inl e \<Rightarrow> Inl e
     | Inr cl \<Rightarrow>
        (case inR B of
           None \<Rightarrow> Inr (L\<lparr>tracks := (tracks L)(t := (tracks L t)\<lparr>channelLeft := cl\<rparr>)\<rparr>)
         | Some ir \<Rightarrow>
            (case channelRight (tracks L t) of
               None \<Rightarrow> Inl NullDeref
             | Some cr \<Rightarrow>
                (case memcpy cr (unat trackIdx) ir (unat offset) byteSize of
                   Inl e \<Rightarrow> Inl e
                 | Inr cr' \<Rightarrow>
                    Inr (L\<lparr>tracks := (tracks L)(t :=
                           (tracks L t)\<lparr>channelLeft := cl, channelRight := Some cr'\<rparr>)\<rparr>)))))"

text \<open>The arm \<open>case SYSTEM_STATE_PASSTHROUGH\<close>.\<close>

definition passthroughBlock :: "Buffers \<Rightarrow> u32 \<Rightarrow> fault + Buffers" where
  "passthroughBlock B byteSize =
    (case memcpy (outL B) 0 (inL B) 0 byteSize of
       Inl e \<Rightarrow> Inl e
     | Inr ol \<Rightarrow>
        (case outR B of
           None \<Rightarrow> Inr (B\<lparr>outL := ol\<rparr>)
         | Some orr \<Rightarrow>
            (case memcpy orr 0 (case inR B of None \<Rightarrow> inL B | Some ir \<Rightarrow> ir) 0 byteSize of
               Inl e \<Rightarrow> Inl e
             | Inr orr' \<Rightarrow> Inr (B\<lparr>outL := ol, outR := Some orr'\<rparr>))))"

text \<open>The arm \<open>case SYSTEM_STATE_OVERDUBBING\<close>, up to its fall through.\<close>

definition overdubBlock :: "MasterLooper \<Rightarrow> Buffers \<Rightarrow> u32 \<Rightarrow> u32 \<Rightarrow> MasterLooper res" where
  "overdubBlock L B nframes offset =
    (case selectedTrackPtr L of
       Inl e \<Rightarrow> Some (Inl e)
     | Inr t \<Rightarrow>
        (case getNumActiveTracks L of
           Inl e \<Rightarrow> Some (Inl e)
         | Inr numTracks \<Rightarrow>
            (let trackIdx = (if numTracks > 1 then currIdx (tracks L t) - 128
                             else currIdx (tracks L t));
                 cnt = nframes - rec_frame_delay L
             in bind_res (overdub (inL B) (unat offset) (channelLeft (tracks L t)) (unat trackIdx) cnt)
                  (\<lambda>cl. case inR B of
                      None \<Rightarrow> Some (Inr (L\<lparr>tracks := (tracks L)(t :=
                                 (tracks L t)\<lparr>channelLeft := cl\<rparr>)\<rparr>))
                    | Some ir \<Rightarrow>
                       (case channelRight (tracks L t) of
                          None \<Rightarrow> Some (Inl NullDeref)
                        | Some cr \<Rightarrow>
                           bind_res (overdub ir (unat offset) cr (unat trackIdx) cnt)
                             (\<lambda>cr'. Some (Inr (L\<lparr>tracks := (tracks L)(t :=
                                 (tracks L t)\<lparr>channelLeft := cl,
                                                channelRight := Some cr'\<rparr>)\<rparr>))))))))"

text \<open>
  The arm \<open>case SYSTEM_STATE_RECORDING\<close> when the state is not overdubbing.  The test
  \<open>((int)looper->masterCurrIdx - 4*128) < 0\<close> is signed.
\<close>

definition recordBlock :: "MasterLooper \<Rightarrow> Buffers \<Rightarrow> u32 \<Rightarrow> u32 \<Rightarrow> fault + MasterLooper" where
  "recordBlock L B offset byteSize =
    (case selectedTrackPtr L of
       Inl e \<Rightarrow> Inl e
     | Inr t \<Rightarrow>
        (case getNumActiveTracks L of
           Inl e \<Rightarrow> Inl e
         | Inr numTracks \<Rightarrow>
            if numTracks > 1 \<and> sint (masterCurrIdx L) - 512 < - (2 ^ 31) then Inl SignedOverflow
            else
              (let trackIdx = (if numTracks > 1 \<and> \<not> sint (masterCurrIdx L) - 512 < 0
                               then currIdx (tracks L t) - 512 else currIdx (tracks L t))
               in copyInputToTrack L B t trackIdx offset byteSize)))"

text \<open>The arm \<open>case SYSTEM_STATE_CALIBRATION\<close>, which records into track 1.\<close>

definition calibrationBlock :: "MasterLooper \<Rightarrow> Buffers \<Rightarrow> u32 \<Rightarrow> u32 \<Rightarrow> fault + MasterLooper" where
  "calibrationBlock L B offset byteSize =
    (case memcpy (channelLeft (tracks L 1)) (unat (currIdx (tracks L 1))) (inL B) (unat offset)
            byteSize of
       Inl e \<Rightarrow> Inl e
     | Inr cl \<Rightarrow> Inr (L\<lparr>tracks := (tracks L)(1 := (tracks L 1)\<lparr>channelLeft := cl\<rparr>)\<rparr>))"

text \<open>
  The arm \<open>case SYSTEM_STATE_PLAYBACK\<close>, which every state but passthrough reaches.  The
  call is \<open>doMixDown(looper, inL, outL, mixdownLeft, mixdownRight, nframes)\<close>: the third
  argument, the right input of the mixdown, is the left output buffer.
\<close>

definition outputMix :: "Buffers \<Rightarrow> u32 \<Rightarrow> fault + Buffers" where
  "outputMix B byteSize =
    (case memcpy (outL B) 0 (mixdownLeft B) 0 byteSize of
       Inl e \<Rightarrow> Inl e
     | Inr ol \<Rightarrow>
        (case outR B of
           None \<Rightarrow> Inr (B\<lparr>outL := ol\<rparr>)
         | Some orr \<Rightarrow>
            (case memcpy orr 0 (case inR B of None \<Rightarrow> mixdownLeft B | Some ir \<Rightarrow> mixdownRight B)
                    0 byteSize of
               Inl e \<Rightarrow> Inl e
             | Inr orr' \<Rightarrow> Inr (B\<lparr>outL := ol, outR := Some orr'\<rparr>))))"

definition playbackBlock ::
  "MasterLooper \<Rightarrow> Buffers \<Rightarrow> u32 \<Rightarrow> u32 \<Rightarrow> (MasterLooper \<times> Buffers) res" where
  "playbackBlock L B nframes byteSize =
    bind_res
      (if play_frame_delay L > 0 then
         (case selectedTrackPtr L of
            Inl e \<Rightarrow> Some (Inl e)
          | Inr t \<Rightarrow>
             (case copyInputToTrack L B t (currIdx (tracks L t)) 0 byteSize of
                Inl e \<Rightarrow> Some (Inl e)
              | Inr L1 \<Rightarrow> Some (Inr (L1, nframes * 4))))
       else Some (Inr (L, byteSize)))
      (\<lambda>(L1, byteSize1).
         bind_res (doMixDown L1 (Some (inL B)) (Some (outL B)) (mixdownLeft B) (mixdownRight B)
                     nframes)
           (\<lambda>(ml, mr).
              case outputMix (B\<lparr>mixdownLeft := ml, mixdownRight := mr\<rparr>) byteSize1 of
                Inl e \<Rightarrow> Some (Inl e)
              | Inr B1 \<Rightarrow> Some (Inr (L1, B1))))"

text \<open>
  \<open>playRecord\<close> (\<open>track_manager.c\<close>): the pending command is applied, the copy size and
  the input offset are computed from the two frame delays, the \<open>switch\<close> on the system
  state runs its arms down to the \<open>break\<close>, the position engine runs in every state but
  passthrough, and the two delays are cleared.  \<open>offset\<close> has been multiplied by the size
  of a sample and is then added to a pointer to samples, as in the source.
\<close>

definition playRecord ::
  "ControlContext \<Rightarrow> MasterLooper \<Rightarrow> Buffers \<Rightarrow> u32
     \<Rightarrow> (ControlContext \<times> MasterLooper \<times> Buffers) res" where
  "playRecord cc L B nframes =
    (case controlStateCheck cc L of
       Inl e \<Rightarrow> Some (Inl e)
     | Inr (cc1, L0) \<Rightarrow>
        (let L1 = L0\<lparr>controlLocked := True\<rparr>;
             byteSize = (if rec_frame_delay L1 > 0 then nframes - rec_frame_delay L1
                         else if play_frame_delay L1 > 0 then play_frame_delay L1
                         else nframes) * 4;
             offset = (if rec_frame_delay L1 > 0 then rec_frame_delay L1 * 4 else 0)
         in bind_res
              (case state L1 of
                 SYSTEM_STATE_PASSTHROUGH \<Rightarrow>
                   (case passthroughBlock B byteSize of
                      Inl e \<Rightarrow> Some (Inl e) | Inr B1 \<Rightarrow> Some (Inr (L1, B1)))
               | SYSTEM_STATE_OVERDUBBING \<Rightarrow>
                   bind_res (overdubBlock L1 B nframes offset)
                     (\<lambda>L2. playbackBlock L2 B nframes byteSize)
               | SYSTEM_STATE_RECORDING \<Rightarrow>
                   bind_res (lift_res (recordBlock L1 B offset byteSize))
                     (\<lambda>L2. playbackBlock L2 B nframes byteSize)
               | SYSTEM_STATE_CALIBRATION \<Rightarrow>
                   bind_res (lift_res (calibrationBlock L1 B offset byteSize))
                     (\<lambda>L2. playbackBlock L2 B nframes byteSize)
               | SYSTEM_STATE_PLAYBACK \<Rightarrow> playbackBlock L1 B nframes byteSize)
              (\<lambda>(L2, B2).
                 bind_res (if state L2 \<noteq> SYSTEM_STATE_PASSTHROUGH
                           then lift_res (updateIndices L2 nframes) else Some (Inr L2))
                   (\<lambda>L3. Some (Inr (cc1, L3\<lparr>rec_frame_delay := 0, play_frame_delay := 0,
                                           controlLocked := False\<rparr>, B2))))))"

section \<open>Concrete states\<close>

text \<open>
  The states at which the properties below are evaluated.  \<open>idleLooper\<close> is the looper as
  \<open>resetSystem\<close> leaves it, with tracks that own no buffer; \<open>idleControl\<close> is a control
  context with no pending command.
\<close>

definition silentTrack :: Track where
  "silentTrack = \<lparr>channelLeft = [], channelRight = None, currIdx = 0, startIdx = 0,
     endIdx = 0, trackState = TRACK_STATE_OFF, repeat = False\<rparr>"

definition idleLooper :: MasterLooper where
  "idleLooper = \<lparr>tracks = (\<lambda>t. silentTrack), groupedTracks = (\<lambda>g t. False),
     masterLength = (\<lambda>g. 0), masterCurrIdx = 0, rec_frame_delay = 0, play_frame_delay = 0,
     selectedTrack = 0, selectedGroup = 0, min_serial_data_length = 6,
     state = SYSTEM_STATE_PASSTHROUGH, monitoringOff = False, controlLocked = False,
     exitNow = False\<rparr>"

definition idleControl :: ControlContext where
  "idleControl = \<lparr>cc_track = 0, cc_group = 0, cc_event = SYSTEM_EVENT_PASSTHROUGH,
     cc_repeat = False, cc_updated = False\<rparr>"

text \<open>Observations of the result of a cycle.\<close>

definition cycleOutL :: "(ControlContext \<times> MasterLooper \<times> Buffers) res \<Rightarrow> sample list option" where
  "cycleOutL r = (case r of Some (Inr (c, l, b)) \<Rightarrow> Some (outL b) | _ \<Rightarrow> None)"

definition cycleLooper :: "(ControlContext \<times> MasterLooper \<times> Buffers) res \<Rightarrow> MasterLooper option" where
  "cycleLooper r = (case r of Some (Inr (c, l, b)) \<Rightarrow> Some l | _ \<Rightarrow> None)"

definition resultLooper :: "fault + MasterLooper \<Rightarrow> MasterLooper option" where
  "resultLooper r = (case r of Inr l \<Rightarrow> Some l | Inl e \<Rightarrow> None)"

text \<open>
  A passthrough cycle of four frames that starts two frames after an overdub command was
  received: the control thread has stored the delay in \<open>rec_frame_delay\<close> and the decoder
  has accepted the command, which the passthrough state ignores.
\<close>

definition pendingOverdub :: ControlContext where
  "pendingOverdub = idleControl\<lparr>cc_event := SYSTEM_EVENT_OVERDUB_TRACK, cc_updated := True\<rparr>"

definition delayedPassthrough :: MasterLooper where
  "delayedPassthrough = idleLooper\<lparr>rec_frame_delay := 2\<rparr>"

definition monoBuffers4 :: Buffers where
  "monoBuffers4 = \<lparr>inL = [float32 1, float32 2, float32 3, float32 4], inR = None,
     outL = [float32 0, float32 0, float32 0, float32 0], outR = None,
     mixdownLeft = [float32 0, float32 0, float32 0, float32 0],
     mixdownRight = [float32 0, float32 0, float32 0, float32 0]\<rparr>"

text \<open>
  A looper whose selected track 0, the only member of group 0, holds a full-length
  recording and is 64 samples before \<open>SAMPLE_LIMIT\<close>, in the overdubbing state and in the
  recording state.
\<close>

definition nearlyFullTrack :: Track where
  "nearlyFullTrack = \<lparr>channelLeft = [], channelRight = None, currIdx = SAMPLE_LIMIT - 64,
     startIdx = 0, endIdx = SAMPLE_LIMIT, trackState = TRACK_STATE_RECORDING, repeat = False\<rparr>"

definition nearlyFullLooper :: "SystemStates \<Rightarrow> MasterLooper" where
  "nearlyFullLooper s = idleLooper\<lparr>tracks := (\<lambda>t. silentTrack)(0 := nearlyFullTrack),
     groupedTracks := (\<lambda>g t. g = 0 \<and> t = 0), masterLength := (\<lambda>g. 0)(0 := SAMPLE_LIMIT),
     masterCurrIdx := SAMPLE_LIMIT - 64, state := s\<rparr>"

text \<open>
  A looper in playback whose track 0, the only member of group 0, has recorded two
  samples (\<open>endIdx = 2\<close>) into a buffer of four.
\<close>

definition shortTrack :: Track where
  "shortTrack = \<lparr>channelLeft = [float32 1, float32 2, float32 3, float32 4],
     channelRight = Some [float32 5, float32 6, float32 7, float32 8], currIdx = 0,
     startIdx = 0, endIdx = 2, trackState = TRACK_STATE_PLAYBACK, repeat = False\<rparr>"

definition shortLooper :: MasterLooper where
  "shortLooper = idleLooper\<lparr>tracks := (\<lambda>t. silentTrack)(0 := shortTrack),
     groupedTracks := (\<lambda>g t. g = 0 \<and> t = 0), masterLength := (\<lambda>g. 0)(0 := 2),
     state := SYSTEM_STATE_PLAYBACK\<rparr>"


text \<open>Position, length and system state seen from the selected track.\<close>

definition selectedTrackStatus :: "MasterLooper \<Rightarrow> u32 \<times> u32 \<times> SystemStates" where
  "selectedTrackStatus L =
    (currIdx (tracks L (unat (selectedTrack L))), endIdx (tracks L (unat (selectedTrack L))),
     state L)"

text \<open>A control context whose track and group fields name track 5 and group 3.\<close>

definition otherTrackControl :: ControlContext where
  "otherTrackControl = idleControl\<lparr>cc_track := 5, cc_group := 3, cc_event := SYSTEM_EVENT_PLAY_TRACK,
     cc_updated := True\<rparr>"










text \<open>
  Two frames of loud samples: the first input and track samples are \<open>-2 ^ 127\<close> and
  \<open>-7 * 2 ^ 124\<close>, their sum \<open>-15 * 2 ^ 124\<close> is about \<open>-0.94 * FLT_MAX\<close>; the second ones
  are their negations.
\<close>

definition loudInput :: "sample list" where
  "loudInput = [float32 (- (2 ^ 127)), float32 (2 ^ 127)]"

definition loudTrack :: "sample list" where
  "loudTrack = [float32 (- (7 * 2 ^ 124)), float32 (7 * 2 ^ 124)]"



text \<open>
  A looper in playback, 128 samples into a loop of 256: every slot of group 0 holds its
  track, tracks 0 and 1 hold a recording of 256 samples, the other tracks are empty.  The
  command records track 2 into group 0; \<open>recordingTrack2Looper\<close> is the looper that
  \<open>startRecording\<close> makes of it.
\<close>

definition playingTrack :: Track where
  "playingTrack = \<lparr>channelLeft = [], channelRight = None, currIdx = 128, startIdx = 0,
     endIdx = 256, trackState = TRACK_STATE_PLAYBACK, repeat = False\<rparr>"

definition fullGroupLooper :: MasterLooper where
  "fullGroupLooper = idleLooper\<lparr>tracks := (\<lambda>t. silentTrack)(0 := playingTrack, 1 := playingTrack),
     groupedTracks := (\<lambda>g t. g = 0), masterLength := (\<lambda>g. 0)(0 := 256),
     masterCurrIdx := 128, selectedTrack := 1, state := SYSTEM_STATE_PLAYBACK\<rparr>"

definition recordTrack2 :: ControlContext where
  "recordTrack2 = idleControl\<lparr>cc_track := 2, cc_event := SYSTEM_EVENT_RECORD_TRACK,
     cc_updated := True\<rparr>"

definition recordingTrack2Looper :: MasterLooper where
  "recordingTrack2Looper = fullGroupLooper\<lparr>
     tracks := (tracks fullGroupLooper)(2 := silentTrack\<lparr>currIdx := 128, startIdx := 128,
                  trackState := TRACK_STATE_RECORDING\<rparr>),
     selectedTrack := 2, state := SYSTEM_STATE_RECORDING\<rparr>"

text \<open>The three indices of track \<open>t\<close>: start, current, end.\<close>

definition trackIndices :: "nat \<Rightarrow> MasterLooper \<Rightarrow> u32 \<times> u32 \<times> u32" where
  "trackIndices t L = (startIdx (tracks L t), currIdx (tracks L t), endIdx (tracks L t))"







section \<open>Properties of the sample arithmetic\<close>

text \<open>
  Rounding to nearest: the powers of two and the logarithm (\<open>floor_log2 x\<close> is
  \<open>\<lfloor>log 2 x\<rfloor>\<close>), the rounding of a real number to an integer,
  the exponent of the unit in the last place, and the numbers that \<open>round_to\<close> leaves as
  they are.  The rounded number is within half a unit in the last place of the number
  rounded.  Rounding is idempotent, so that the value of \<open>float32 x\<close>, when it is finite,
  is \<open>x\<close> rounded.
\<close>

lemma pow2_powr: "pow2 e = 2 powr of_int e"
  by (simp add: pow2_def powr_real_of_int inverse_eq_divide)

lemma pow2_recip: "1 \<le> j \<Longrightarrow> pow2 (1 - j) = 1 / 2 ^ nat (j - 1)"
proof (cases "j = 1")
  case True
  then show ?thesis by (simp add: pow2_def)
next
  case False
  assume "1 \<le> j"
  with False have "\<not> 0 \<le> 1 - j" "nat (- (1 - j)) = nat (j - 1)" by simp_all
  then show ?thesis by (simp add: pow2_def)
qed

lemma real_of_int_two_power_le: "2 ^ m \<le> n \<Longrightarrow> (2 :: real) ^ m \<le> of_int n"
  using of_int_le_iff [of "2 ^ m" n, where 'a = real] by simp

lemma real_of_int_le_two_power: "n \<le> 2 ^ m \<Longrightarrow> (of_int n :: real) \<le> 2 ^ m"
  using of_int_le_iff [of n "2 ^ m", where 'a = real] by simp

lemma floor_log2_eq:
  assumes "0 < x"
  shows "floor_log2 x = \<lfloor>log 2 x\<rfloor>"
proof (cases "1 \<le> x")
  case True
  define n where "n = \<lfloor>x\<rfloor>"
  have n: "0 < n" "of_int n \<le> x" "x < of_int n + 1" using True by (simp_all add: n_def)
  define k where "k = bitlen n - 1"
  have k0: "0 \<le> k" using n(1) bitlen_bounds [of n] bitlen_nonneg [of n]
    by (cases "bitlen n = 0") (auto simp add: k_def)
  have b: "2 ^ nat k \<le> n" "n < 2 ^ nat (k + 1)"
    using bitlen_bounds [OF n(1)] by (simp_all add: k_def)
  have "(2 :: real) ^ nat k \<le> of_int n" using b(1) by (rule real_of_int_two_power_le)
  then have "(2 :: real) ^ nat k \<le> x" using n(2) by linarith
  then have lo: "2 powr of_int k \<le> x" using k0 by (simp add: powr_real_of_int)
  have "n + 1 \<le> 2 ^ nat (k + 1)" using b(2) by simp
  then have "(of_int (n + 1) :: real) \<le> 2 ^ nat (k + 1)" by (rule real_of_int_le_two_power)
  then have "x < 2 ^ nat (k + 1)" using n(3) by simp
  then have hi: "x < 2 powr (of_int k + 1)"
    using k0 powr_real_of_int [of 2 "k + 1"] by simp
  have "\<lfloor>log 2 x\<rfloor> = k" using assms lo hi by (simp add: floor_log_eq_powr_iff)
  then show ?thesis using True by (simp add: floor_log2_def k_def n_def)
next
  case False
  define c where "c = \<lceil>1 / x\<rceil>"
  have y: "1 < 1 / x" using False assms by simp
  have c: "of_int c - 1 < 1 / x" "1 / x \<le> of_int c" unfolding c_def by linarith+
  have c2: "0 < c - 1"
  proof -
    have "(1 :: real) < of_int c" using y c(2) by linarith
    then have "1 < c" by simp
    then show ?thesis by simp
  qed
  define j where "j = bitlen (c - 1)"
  have j1: "1 \<le> j" using c2 bitlen_bounds [of "c - 1"] bitlen_nonneg [of "c - 1"]
    by (cases "bitlen (c - 1) = 0") (auto simp add: j_def)
  have b: "2 ^ nat (j - 1) \<le> c - 1" "c - 1 < 2 ^ nat j"
    using bitlen_bounds [OF c2] by (simp_all add: j_def)
  have "(2 :: real) ^ nat (j - 1) \<le> of_int (c - 1)" using b(1) by (rule real_of_int_two_power_le)
  then have "(2 :: real) ^ nat (j - 1) < 1 / x" using c(1) by simp
  then have "x < 1 / 2 ^ nat (j - 1)" using assms by (simp add: field_simps)
  then have "x < pow2 (1 - j)" using j1 by (simp add: pow2_recip)
  then have hi: "x < 2 powr (of_int (- j) + 1)" by (simp add: pow2_powr add.commute)
  have "c \<le> 2 ^ nat j" using b(2) by simp
  then have "(of_int c :: real) \<le> 2 ^ nat j" by (rule real_of_int_le_two_power)
  then have "1 / x \<le> 2 ^ nat j" using c(2) by linarith
  then have "1 / 2 ^ nat j \<le> x" using assms by (simp add: field_simps)
  then have "pow2 (- j) \<le> x" using j1 by (simp add: pow2_def)
  then have lo: "2 powr of_int (- j) \<le> x" by (simp add: pow2_powr)
  have "\<lfloor>log 2 x\<rfloor> = - j" using assms lo hi floor_log_eq_powr_iff [of x 2 "- j"] by simp
  then show ?thesis using False by (simp add: floor_log2_def j_def c_def)
qed

lemma pow2_pos: "0 < pow2 e"
  by (simp add: pow2_powr)

lemma pow2_add: "pow2 (a + b) = pow2 a * pow2 b"
  by (simp add: pow2_powr powr_add)

lemma pow2_Suc: "pow2 (e + 1) = 2 * pow2 e"
  by (simp add: pow2_powr powr_add)

lemma pow2_nat: "0 \<le> e \<Longrightarrow> pow2 e = 2 ^ nat e"
  by (simp add: pow2_def)

lemma pow2_neg: "e < 0 \<Longrightarrow> pow2 e = 1 / 2 ^ nat (- e)"
  by (simp add: pow2_def)

lemma pow2_less: "pow2 a < pow2 b \<longleftrightarrow> a < b"
  by (simp add: pow2_powr)

lemma pow2_le: "pow2 a \<le> pow2 b \<longleftrightarrow> a \<le> b"
  by (simp add: pow2_powr)

lemma ulp_exponent_log:
  "x \<noteq> 0 \<Longrightarrow> ulp_exponent p emin x = max emin (\<lfloor>log 2 \<bar>x\<bar>\<rfloor> - p + 1)"
  by (simp add: ulp_exponent_def floor_log2_eq)

lemma round_even_of_int: "round_even (of_int m) = m"
  by (simp add: round_even_def)

lemma round_even_eq:
  assumes "of_int m - 1 / 2 < y" and "y < of_int m + 1 / 2"
  shows "round_even y = m"
proof (cases "of_int m \<le> y")
  case True
  then have f: "\<lfloor>y\<rfloor> = m" using assms by (simp add: floor_eq_iff)
  show ?thesis using assms unfolding round_even_def f Let_def by simp
next
  case False
  then have f: "\<lfloor>y\<rfloor> = m - 1" using assms by (simp add: floor_eq_iff)
  show ?thesis using assms False unfolding round_even_def f Let_def by simp
qed

lemma round_even_le: "y \<le> of_int b \<Longrightarrow> round_even y \<le> b"
proof -
  assume y: "y \<le> of_int b"
  have f: "\<lfloor>y\<rfloor> \<le> b" using y by (simp add: floor_le_iff)
  have "y - of_int \<lfloor>y\<rfloor> < 1 / 2 \<or> \<lfloor>y\<rfloor> + 1 \<le> b"
  proof (cases "y - of_int \<lfloor>y\<rfloor> < 1 / 2")
    case True
    then show ?thesis by simp
  next
    case False
    then have "of_int \<lfloor>y\<rfloor> < y" by simp
    then have "of_int \<lfloor>y\<rfloor> < (of_int b :: real)" using y by simp
    then have "\<lfloor>y\<rfloor> < b" by simp
    then show ?thesis by simp
  qed
  then show ?thesis using f by (auto simp add: round_even_def Let_def)
qed

lemma round_even_ge: "of_int a \<le> y \<Longrightarrow> a \<le> round_even y"
proof -
  assume "of_int a \<le> y"
  then have "a \<le> \<lfloor>y\<rfloor>" by (simp add: le_floor_iff)
  then show ?thesis by (auto simp add: round_even_def Let_def)
qed

lemma round_even_nearest: "\<bar>of_int (round_even y) - y\<bar> \<le> 1 / 2"
proof -
  have "of_int \<lfloor>y\<rfloor> \<le> y" "y < of_int \<lfloor>y\<rfloor> + 1" by linarith+
  then show ?thesis by (auto simp add: round_even_def Let_def abs_le_iff)
qed

lemma floor_log2_unique:
  assumes "0 < x" and "pow2 k \<le> x" and "x < pow2 (k + 1)"
  shows "\<lfloor>log 2 x\<rfloor> = k"
  using assms by (simp add: floor_log_eq_powr_iff pow2_powr)

lemma floor_log2_less:
  assumes "0 < x" and "x < pow2 j"
  shows "\<lfloor>log 2 x\<rfloor> < j"
proof -
  have "log 2 x < of_int j" using assms by (simp add: log_less_iff pow2_powr)
  then show ?thesis by (simp add: floor_less_iff)
qed

lemma ulp_exponent_le:
  assumes "x \<noteq> 0" and "\<bar>x\<bar> < pow2 (j + p)" and "emin \<le> j"
  shows "ulp_exponent p emin x \<le> j"
proof -
  have "\<lfloor>log 2 \<bar>x\<bar>\<rfloor> < j + p" using assms by (intro floor_log2_less) simp_all
  then show ?thesis using assms(1,3) by (simp add: ulp_exponent_log)
qed

lemma ulp_exponent_ge: "emin \<le> ulp_exponent p emin x"
  by (simp add: ulp_exponent_def)

lemma ulp_exponent_eq:
  assumes "x \<noteq> 0" and "pow2 k \<le> \<bar>x\<bar>" and "\<bar>x\<bar> < pow2 (k + 1)"
  shows "ulp_exponent p emin x = max emin (k - p + 1)"
proof -
  have "\<lfloor>log 2 \<bar>x\<bar>\<rfloor> = k" using assms by (intro floor_log2_unique) simp_all
  then show ?thesis using assms(1) by (simp add: ulp_exponent_log)
qed

lemma round_to_exact:
  assumes x: "x = of_int m * pow2 j" and le: "ulp_exponent p emin x \<le> j"
  shows "round_to p emin x = x"
proof (cases "x = 0")
  case True
  then show ?thesis by (simp add: round_to_def)
next
  case False
  define e where "e = ulp_exponent p emin x"
  have ej: "e \<le> j" using le by (simp add: e_def)
  have j: "pow2 j = pow2 (j - e) * pow2 e"
    using pow2_add [of "j - e" e] by simp
  have n: "pow2 (j - e) = of_int (2 ^ nat (j - e))" using ej by (simp add: pow2_nat)
  have "x / pow2 e = of_int m * pow2 (j - e)"
    unfolding x j using pow2_pos [of e] by simp
  also have "\<dots> = of_int (m * 2 ^ nat (j - e))" unfolding n by simp
  finally have "round_even (x / pow2 e) = m * 2 ^ nat (j - e)"
    by (simp only: round_even_of_int)
  then have "round_to p emin x = of_int (m * 2 ^ nat (j - e)) * pow2 e"
    using False by (simp only: round_to_def if_False e_def)
  also have "\<dots> = of_int m * (pow2 (j - e) * pow2 e)" unfolding n by simp
  also have "\<dots> = x" unfolding x j [symmetric] by simp
  finally show ?thesis .
qed

lemma round_to_eval:
  assumes "x \<noteq> 0" and "pow2 k \<le> \<bar>x\<bar>" and "\<bar>x\<bar> < pow2 (k + 1)"
    and "e = max emin (k - p + 1)"
  shows "round_to p emin x = of_int (round_even (x / pow2 e)) * pow2 e"
  using assms ulp_exponent_eq [of x k p emin] by (simp add: round_to_def)

lemma round_to_nearest:
  "\<bar>round_to p emin x - x\<bar> \<le> pow2 (ulp_exponent p emin x) / 2"
proof (cases "x = 0")
  case True
  then show ?thesis using pow2_pos [of "ulp_exponent p emin x"] by (simp add: round_to_def)
next
  case False
  define e where "e = ulp_exponent p emin x"
  have "round_to p emin x - x = (of_int (round_even (x / pow2 e)) - x / pow2 e) * pow2 e"
    using False pow2_pos [of e] by (simp add: round_to_def e_def algebra_simps)
  then have "\<bar>round_to p emin x - x\<bar> = \<bar>of_int (round_even (x / pow2 e)) - x / pow2 e\<bar> * pow2 e"
    using pow2_pos [of e] by (simp add: abs_mult)
  also have "\<dots> \<le> 1 / 2 * pow2 e"
    using round_even_nearest [of "x / pow2 e"] pow2_pos [of e]
    by (intro mult_right_mono) simp_all
  finally show ?thesis by (simp add: e_def)
qed

lemma round_to_nonpos: "x \<le> 0 \<Longrightarrow> round_to p emin x \<le> 0"
proof -
  assume x: "x \<le> 0"
  let ?e = "ulp_exponent p emin x"
  have "x / pow2 ?e \<le> of_int 0" using x pow2_pos [of ?e] by (simp add: divide_nonpos_pos)
  then have "round_even (x / pow2 ?e) \<le> 0" by (rule round_even_le)
  then have "of_int (round_even (x / pow2 ?e)) * pow2 ?e \<le> 0"
    using pow2_pos [of ?e] by (simp add: mult_nonpos_nonneg)
  then show ?thesis by (simp add: round_to_def)
qed

lemma round_to_idem:
  assumes p: "1 \<le> p"
  shows "round_to p emin (round_to p emin x) = round_to p emin x"
proof (cases "round_to p emin x = 0")
  case True
  then show ?thesis by (simp add: round_to_def)
next
  case False
  then have x0: "x \<noteq> 0" by (auto simp add: round_to_def)
  define k where "k = \<lfloor>log 2 \<bar>x\<bar>\<rfloor>"
  define e where "e = ulp_exponent p emin x"
  define m where "m = round_even (x / pow2 e)"
  define r where "r = round_to p emin x"
  have r: "r = of_int m * pow2 e" using x0 by (simp add: r_def m_def e_def round_to_def)
  have r0: "r \<noteq> 0" using False by (simp add: r_def)
  have ek: "k - p + 1 \<le> e" and ee: "emin \<le> e"
    using x0 by (simp_all add: e_def k_def ulp_exponent_log)
  have "\<bar>x\<bar> < 2 powr (of_int k + 1)"
    using x0 floor_log_eq_powr_iff [of "\<bar>x\<bar>" 2 k] by (simp add: k_def)
  then have "\<bar>x\<bar> < pow2 (k + 1)" by (simp add: pow2_powr)
  also have "\<dots> \<le> pow2 (e + p)" using ek by (simp add: pow2_le)
  finally have xl: "\<bar>x\<bar> < pow2 e * pow2 p" by (simp add: pow2_add)
  have pp: "pow2 p = of_int (2 ^ nat p)" using p by (simp add: pow2_nat)
  have "\<bar>x / pow2 e\<bar> < pow2 p"
    using xl pow2_pos [of e] by (simp add: abs_divide pos_divide_less_eq mult.commute)
  then have "x / pow2 e \<le> of_int (2 ^ nat p)" "of_int (- (2 ^ nat p)) \<le> x / pow2 e"
    unfolding pp by linarith+
  then have mb: "m \<le> 2 ^ nat p" "- (2 ^ nat p) \<le> m"
    unfolding m_def by (simp_all only: round_even_le round_even_ge)
  show ?thesis
  proof (cases "\<bar>m\<bar> = 2 ^ nat p")
    case True
    obtain q where q: "nat p = Suc q" using p by (cases "nat p") simp_all
    have "even \<bar>m\<bar>" unfolding True q by simp
    then have "even m" by simp
    then have half: "m = (m div 2) * 2" by simp
    have rr: "r = of_int (m div 2) * pow2 (e + 1)"
    proof -
      have "of_int m = (of_int (m div 2) :: real) * 2" using half by (metis of_int_mult of_int_numeral)
      then show ?thesis by (simp add: r pow2_Suc)
    qed
    have "\<bar>r\<bar> = pow2 (e + p)"
    proof -
      have "\<bar>r\<bar> = \<bar>of_int m\<bar> * pow2 e" using pow2_pos [of e] by (simp add: r abs_mult)
      also have "\<bar>of_int m :: real\<bar> = of_int \<bar>m\<bar>" by simp
      also have "\<dots> = pow2 p" unfolding True pp by simp
      finally show ?thesis by (simp add: pow2_add mult.commute)
    qed
    then have "ulp_exponent p emin r = max emin (e + p - p + 1)"
      using r0 by (intro ulp_exponent_eq) (simp_all add: pow2_less)
    then have "ulp_exponent p emin r \<le> e + 1" using ee by simp
    from round_to_exact [OF rr this] show ?thesis by (simp add: r_def)
  next
    case False
    with mb have "\<bar>m\<bar> < 2 ^ nat p" by simp
    then have "(of_int \<bar>m\<bar> :: real) < of_int (2 ^ nat p)" by (simp only: of_int_less_iff)
    then have "\<bar>of_int m :: real\<bar> < pow2 p" unfolding pp by simp
    then have "\<bar>r\<bar> < pow2 (e + p)"
      using pow2_pos [of e] by (simp add: r abs_mult pow2_add mult.commute)
    then have "ulp_exponent p emin r \<le> e" using r0 ee by (intro ulp_exponent_le) simp_all
    from round_to_exact [OF r this] show ?thesis by (simp add: r_def)
  qed
qed

text \<open>
  The finite \<open>float\<close>s: every integer below \<open>2 ^ 24\<close> in magnitude, scaled by a power
  of two up to \<open>2 ^ 104\<close>, is one; sums of such numbers that are again of this form are
  exact; adding zero changes no sample.
\<close>

lemma FLT_MAX_eq: "FLT_MAX = (2 ^ 24 - 1) * 2 ^ 104"
  by (simp add: FLT_MAX_def)


lemma representable32_scaled:
  assumes m: "\<bar>m\<bar> < 2 ^ 24" and k: "k \<le> 104"
  shows "representable32 (of_int m * 2 ^ k)"
proof -
  let ?x = "of_int m * 2 ^ k :: real"
  have x: "?x = of_int m * pow2 (int k)" by (simp add: pow2_nat)
  have r: "round_to 24 (- 149) ?x = ?x"
  proof (cases "?x = 0")
    case True
    then show ?thesis by (simp add: round_to_def)
  next
    case False
    have "(of_int \<bar>m\<bar> :: real) < of_int (2 ^ 24)" using m by (simp only: of_int_less_iff)
    then have "\<bar>of_int m :: real\<bar> < pow2 24" by (simp add: pow2_nat)
    then have "\<bar>?x\<bar> < pow2 (int k + 24)"
      unfolding x using pow2_pos [of "int k"] by (simp add: abs_mult pow2_add mult.commute)
    then have "ulp_exponent 24 (- 149) ?x \<le> int k" using False by (intro ulp_exponent_le) simp_all
    from round_to_exact [OF x this] show ?thesis .
  qed
  have "\<bar>m\<bar> \<le> 2 ^ 24 - 1" using m by simp
  then have "(of_int \<bar>m\<bar> :: real) \<le> of_int (2 ^ 24 - 1)" by (simp only: of_int_le_iff)
  then have a: "\<bar>of_int m :: real\<bar> \<le> 2 ^ 24 - 1" by simp
  have b: "(2 :: real) ^ k \<le> 2 ^ 104" using k by (intro power_increasing) simp_all
  have "\<bar>?x\<bar> = \<bar>of_int m\<bar> * 2 ^ k" by (simp add: abs_mult)
  also have "\<dots> \<le> (2 ^ 24 - 1) * 2 ^ 104" using a b by (intro mult_mono) simp_all
  finally have "\<bar>?x\<bar> \<le> FLT_MAX" by (simp only: FLT_MAX_eq)
  with r show ?thesis by (simp add: representable32_def)
qed

lemma representable32_int:
  assumes "x \<in> \<int>" and "\<bar>x\<bar> < 16777216"
  shows "representable32 x"
proof -
  from assms(1) obtain m where x: "x = of_int m" by (auto elim: Ints_cases)
  have "(of_int \<bar>m\<bar> :: real) < of_int 16777216" using assms(2) x by simp
  then have "\<bar>m\<bar> < 16777216" by (simp only: of_int_less_iff)
  then have "representable32 (of_int m * 2 ^ 0)" by (intro representable32_scaled) simp_all
  then show ?thesis by (simp add: x)
qed


lemma valueOf_Abs: "representable32 x \<Longrightarrow> valueOf (Abs_finite32 x) = x"
  by (simp add: valueOf_def Abs_finite32_inverse)

lemma float32_Finite: "representable32 x \<Longrightarrow> float32 x = Finite (Abs_finite32 x)"
  by (simp add: float32_def representable32_def Let_def abs_le_iff)


lemma float32_round:
  assumes "round_to 24 (- 149) x = y" and "\<bar>y\<bar> \<le> FLT_MAX"
  shows "float32 x = float32 y"
proof -
  have "round_to 24 (- 149) y = y" using assms(1) round_to_idem [of 24 "- 149" x] by simp
  then have "representable32 y" using assms(2) by (simp add: representable32_def)
  then have "float32 y = Finite (Abs_finite32 y)" by (rule float32_Finite)
  moreover have "float32 x = Finite (Abs_finite32 y)"
    using assms by (simp add: float32_def Let_def abs_le_iff)
  ultimately show ?thesis by simp
qed

lemma float32_value:
  assumes "float32 x = Finite a"
  shows "valueOf a = round_to 24 (- 149) x"
proof -
  let ?r = "round_to 24 (- 149) x"
  have in_range: "\<not> FLT_MAX < ?r" "\<not> ?r < - FLT_MAX" and a: "a = Abs_finite32 ?r"
    using assms by (auto simp add: float32_def Let_def split: if_splits)
  have "round_to 24 (- 149) ?r = ?r" by (rule round_to_idem) simp
  then have "representable32 ?r" using in_range by (simp add: representable32_def)
  then show ?thesis unfolding a by (rule valueOf_Abs)
qed

lemma float32_overflow:
  "FLT_MAX < round_to 24 (- 149) x \<Longrightarrow> float32 x = PlusInf"
  by (simp add: float32_def Let_def)

lemma float_add_exact:
  "representable32 x \<Longrightarrow> representable32 y
   \<Longrightarrow> float_add (float32 x) (float32 y) = float32 (x + y)"
  by (simp add: float32_Finite valueOf_Abs)



text \<open>
  The two constants of the limiter: the \<open>double\<close> nearest to 0.9 and the \<open>double\<close>
  product \<open>0.9 * FLT_MAX\<close>.
\<close>

lemma DOUBLE_0_9_value: "DOUBLE_0_9 = 8106479329266893 / 2 ^ 53"
proof -
  have "round_to 53 (- 1074) (9 / 10)
      = of_int (round_even ((9 / 10) / pow2 (- 53))) * pow2 (- 53)"
    by (rule round_to_eval [where k = "- 1"]) (simp_all add: pow2_neg pow2_nat)
  moreover have "round_even ((9 / 10) / pow2 (- 53)) = 8106479329266893"
    by (rule round_even_eq) (simp_all add: pow2_neg)
  ultimately show ?thesis by (simp add: DOUBLE_0_9_def to_double_def pow2_neg)
qed

lemma limiterThreshold_value: "limiterThreshold = 8106478846083072 * 2 ^ 75"
proof -
  let ?x = "DOUBLE_0_9 * FLT_MAX"
  have "round_to 53 (- 1074) ?x = of_int (round_even (?x / pow2 75)) * pow2 75"
    by (rule round_to_eval [where k = 127])
      (simp_all add: DOUBLE_0_9_value FLT_MAX_def pow2_nat)
  moreover have "round_even (?x / pow2 75) = 8106478846083072"
    by (rule round_even_eq) (simp_all add: DOUBLE_0_9_value FLT_MAX_def pow2_nat)
  ultimately show ?thesis by (simp add: limiterThreshold_def to_double_def pow2_nat)
qed

text \<open>
  The product \<open>0.9 * FLT_MAX\<close> of the two \<open>double\<close>s is the real number
  \<open>0.9 * FLT_MAX\<close>: the error of the constant \<open>0.9\<close> is lost when the product is rounded.
\<close>

lemma limiterThreshold_exact: "limiterThreshold = 9 / 10 * FLT_MAX"
  by (simp add: limiterThreshold_value FLT_MAX_def)

lemma exceedsLimit_Finite: "exceedsLimit (Finite a) = (9 / 10 * FLT_MAX < valueOf a)"
  by (simp add: limiterThreshold_exact)

lemma limiterThreshold_pos: "0 < limiterThreshold"
  by (simp add: limiterThreshold_value)

lemma limiter_below:
  "representable32 x \<Longrightarrow> x \<le> limiterThreshold \<Longrightarrow> limiter (float32 x) = float32 x"
  by (simp add: limiter_def float32_Finite valueOf_Abs)

lemma limiter_int:
  "x \<in> \<int> \<Longrightarrow> \<bar>x\<bar> < 16777216 \<Longrightarrow> limiter (float32 x) = float32 x"
proof -
  assume x: "x \<in> \<int>" "\<bar>x\<bar> < 16777216"
  have "x \<le> limiterThreshold" using x(2) by (simp add: limiterThreshold_value)
  with representable32_int [OF x] show ?thesis by (rule limiter_below)
qed

lemma float_add_int:
  "x \<in> \<int> \<Longrightarrow> \<bar>x\<bar> < 16777216 \<Longrightarrow> y \<in> \<int> \<Longrightarrow> \<bar>y\<bar> < 16777216
   \<Longrightarrow> float_add (float32 x) (float32 y) = float32 (x + y)"
  by (intro float_add_exact representable32_int)

lemma exceedsLimit_nonpos:
  assumes "x \<le> 0"
  shows "\<not> exceedsLimit (float32 x)"
proof (cases "float32 x")
  case (Finite a)
  then have "valueOf a = round_to 24 (- 149) x" by (rule float32_value)
  then have "valueOf a \<le> 0" using round_to_nonpos [OF assms] by simp
  then show ?thesis using Finite limiterThreshold_pos by simp
next
  case PlusInf
  have "round_to 24 (- 149) x \<le> 0" using assms by (rule round_to_nonpos)
  then have "\<not> FLT_MAX < round_to 24 (- 149) x" by (simp add: FLT_MAX_def)
  then show ?thesis using PlusInf by (simp add: float32_def Let_def split: if_splits)
qed simp_all

lemma limiter_nonpos: "x \<le> 0 \<Longrightarrow> limiter (float32 x) = float32 x"
  using exceedsLimit_nonpos [of x] by (simp add: limiter_def)

text \<open>
  The limiter on a rounded real number \<open>x\<close>, by the value \<open>s\<close> that \<open>x\<close> is rounded to.
\<close>

lemma limiter_float32:
  "limiter (float32 x) =
    (let s = round_to 24 (- 149) x in
     if FLT_MAX < s then PlusInf
     else if 9 / 10 * FLT_MAX < s then float32 (to_double (s * DOUBLE_0_9))
     else float32 x)"
proof -
  let ?s = "round_to 24 (- 149) x"
  consider (over) "FLT_MAX < ?s" | (under) "?s < - FLT_MAX"
    | (fin) "\<not> FLT_MAX < ?s" "\<not> ?s < - FLT_MAX"
    by blast
  then show ?thesis
  proof cases
    case over
    then show ?thesis by (simp add: float32_def limiter_def Let_def)
  next
    case under
    then have "float32 x = MinusInf" "\<not> 9 / 10 * FLT_MAX < ?s" "\<not> FLT_MAX < ?s"
      by (simp_all add: float32_def Let_def FLT_MAX_def)
    then show ?thesis by (simp add: limiter_def Let_def)
  next
    case fin
    then have f: "float32 x = Finite (Abs_finite32 ?s)" by (simp add: float32_def Let_def)
    then have "valueOf (Abs_finite32 ?s) = ?s" by (rule float32_value)
    then show ?thesis using fin f by (simp add: limiter_def Let_def limiterThreshold_exact)
  qed
qed

lemma limiter_PlusInf: "limiter PlusInf = PlusInf"
  by (simp add: limiter_def)

lemma limiter_MinusInf: "limiter MinusInf = MinusInf"
  by (simp add: limiter_def)

lemma limiter_NaN: "limiter NaN = NaN"
  by (simp add: limiter_def)

lemma float32_int_eq:
  assumes "x \<in> \<int>" and "\<bar>x\<bar> < 16777216" and "y \<in> \<int>" and "\<bar>y\<bar> < 16777216"
  shows "(float32 x = float32 y) = (x = y)"
proof -
  have x: "representable32 x" and y: "representable32 y"
    using assms by (simp_all add: representable32_int)
  then show ?thesis
    by (simp add: float32_Finite Abs_finite32_inject)
qed

text \<open>
  The sums of some large samples: \<open>-15 * 2 ^ 124\<close> and \<open>15 * 2 ^ 124\<close> are about
  \<open>0.94 * FLT_MAX\<close> in magnitude, and \<open>0.8 * FLT_MAX\<close> is \<open>13421772 * 2 ^ 104\<close>, a finite
  \<open>float\<close>.
\<close>

lemma float_add_loud_negative:
  "float_add (float32 (- (2 ^ 127))) (float32 (- (7 * 2 ^ 124))) = float32 (- (15 * 2 ^ 124))"
proof -
  have a: "representable32 (of_int (- 8388608) * 2 ^ 104)" by (rule representable32_scaled) simp_all
  have b: "representable32 (of_int (- 7340032) * 2 ^ 104)" by (rule representable32_scaled) simp_all
  show ?thesis using float_add_exact [OF a b] by simp
qed

lemma float_add_loud_positive:
  "float_add (float32 (2 ^ 127)) (float32 (7 * 2 ^ 124)) = float32 (15 * 2 ^ 124)"
proof -
  have a: "representable32 (of_int 8388608 * 2 ^ 104)" by (rule representable32_scaled) simp_all
  have b: "representable32 (of_int 7340032 * 2 ^ 104)" by (rule representable32_scaled) simp_all
  show ?thesis using float_add_exact [OF a b] by simp
qed

lemma float32_loud_negative_value:
  "float32 (- (15 * 2 ^ 124)) = Finite (Abs_finite32 (- (15 * 2 ^ 124)))
   \<and> valueOf (Abs_finite32 (- (15 * 2 ^ 124))) = - (15 * 2 ^ 124)"
proof -
  have a: "representable32 (of_int (- 15728640) * 2 ^ 104)" by (rule representable32_scaled) simp_all
  then have "representable32 (- (15 * 2 ^ 124))" by simp
  then show ?thesis by (simp add: float32_Finite valueOf_Abs)
qed

lemma limiter_loud_positive:
  "exceedsLimit (float32 (15 * 2 ^ 124))
   \<and> scale09 (float32 (15 * 2 ^ 124)) = float32 (27 * 2 ^ 123)"
proof -
  have a: "representable32 (of_int 15728640 * 2 ^ 104)" by (rule representable32_scaled) simp_all
  let ?x = "15 * 2 ^ 124 * DOUBLE_0_9"
  have "round_to 53 (- 1074) ?x = of_int (round_even (?x / pow2 75)) * pow2 75"
    by (rule round_to_eval [where k = 127]) (simp_all add: DOUBLE_0_9_value pow2_nat)
  moreover have "round_even (?x / pow2 75) = 7599824371187712"
    by (rule round_even_eq) (simp_all add: DOUBLE_0_9_value pow2_nat)
  ultimately have d: "to_double ?x = 7599824371187712 * 2 ^ 75"
    by (simp add: to_double_def pow2_nat)
  let ?y = "7599824371187712 * 2 ^ 75 :: real"
  have "round_to 24 (- 149) ?y = of_int (round_even (?y / pow2 104)) * pow2 104"
    by (rule round_to_eval [where k = 127]) (simp_all add: pow2_nat)
  moreover have "round_even (?y / pow2 104) = 14155776"
    by (rule round_even_eq) (simp_all add: pow2_nat)
  ultimately have "round_to 24 (- 149) ?y = 27 * 2 ^ 123" by (simp add: pow2_nat)
  then have "float32 ?y = float32 (27 * 2 ^ 123)"
    by (rule float32_round) (simp add: FLT_MAX_def)
  then show ?thesis using a d
    by (simp add: float32_Finite valueOf_Abs limiterThreshold_value)
qed

lemma scale09_loud_negative:
  "scale09 (float32 (- (15 * 2 ^ 124))) = float32 (- (27 * 2 ^ 123))
   \<and> float32 (- (27 * 2 ^ 123)) \<noteq> float32 (- (15 * 2 ^ 124))"
proof -
  have a: "representable32 (of_int (- 15728640) * 2 ^ 104)"
    by (rule representable32_scaled) simp_all
  have b: "representable32 (of_int (- 14155776) * 2 ^ 104)"
    by (rule representable32_scaled) simp_all
  let ?x = "- (15 * 2 ^ 124) * DOUBLE_0_9"
  have "round_to 53 (- 1074) ?x = of_int (round_even (?x / pow2 75)) * pow2 75"
    by (rule round_to_eval [where k = 127]) (simp_all add: DOUBLE_0_9_value pow2_nat)
  moreover have "round_even (?x / pow2 75) = - 7599824371187712"
    by (rule round_even_eq) (simp_all add: DOUBLE_0_9_value pow2_nat)
  ultimately have d: "to_double ?x = - (7599824371187712 * 2 ^ 75)"
    by (simp add: to_double_def pow2_nat)
  let ?y = "- (7599824371187712 * 2 ^ 75) :: real"
  have "round_to 24 (- 149) ?y = of_int (round_even (?y / pow2 104)) * pow2 104"
    by (rule round_to_eval [where k = 127]) (simp_all add: pow2_nat)
  moreover have "round_even (?y / pow2 104) = - 14155776"
    by (rule round_even_eq) (simp_all add: pow2_nat)
  ultimately have "round_to 24 (- 149) ?y = - (27 * 2 ^ 123)" by (simp add: pow2_nat)
  then have "float32 ?y = float32 (- (27 * 2 ^ 123))"
    by (rule float32_round) (simp add: FLT_MAX_def)
  then have "scale09 (float32 (- (15 * 2 ^ 124))) = float32 (- (27 * 2 ^ 123))"
    using a d by (simp add: float32_Finite valueOf_Abs)
  moreover have "float32 (- (27 * 2 ^ 123)) \<noteq> float32 (- (15 * 2 ^ 124))"
    using a b by (simp add: float32_Finite Abs_finite32_inject)
  ultimately show ?thesis by simp
qed

lemma float_add_overflow:
  "float_add (float32 (8 / 10 * FLT_MAX)) (float32 (8 / 10 * FLT_MAX)) = PlusInf"
proof -
  have r: "representable32 (of_int 13421772 * 2 ^ 104)"
    by (rule representable32_scaled) simp_all
  have v: "8 / 10 * FLT_MAX = of_int 13421772 * 2 ^ 104" by (simp add: FLT_MAX_def)
  have "round_to 24 (- 149) (of_int 13421772 * pow2 105) = of_int 13421772 * pow2 105"
    by (rule round_to_exact [OF refl], rule ulp_exponent_le) (simp_all add: pow2_nat)
  then have "float32 (of_int 13421772 * 2 ^ 104 + of_int 13421772 * 2 ^ 104) = PlusInf"
    by (intro float32_overflow) (simp add: pow2_nat FLT_MAX_def)
  then show ?thesis unfolding v using float_add_exact [OF r r] by simp
qed

section \<open>Properties of the position engine\<close>

lemma updateTrackIndex_masterCurrIdx:
  "masterCurrIdx (updateTrackIndex sg st n idx L) = masterCurrIdx L"
  by (simp add: updateTrackIndex_def Let_def)

lemma updateIndices_loop_masterCurrIdx:
  "masterCurrIdx (updateIndices_loop sg st n idx L) = masterCurrIdx L"
proof (induction sg st n idx L rule: updateIndices_loop.induct)
  case (1 sg st n idx L)
  show ?case
  proof (cases "idx < NUM_TRACKS")
    case True
    then show ?thesis
      using "1.IH" by (simp add: updateIndices_loop.simps [of sg st n idx L]
          updateTrackIndex_masterCurrIdx)
  next
    case False
    then show ?thesis by (simp add: updateIndices_loop.simps [of sg st n idx L])
  qed
qed

text \<open>
  Claim C8.  A run of the position engine, for any frame count and in any system state,
  returns (the selected group being one of the \<open>NUM_GROUPS\<close> groups) and leaves
  \<open>masterCurrIdx \<le> SAMPLE_LIMIT\<close>: the master index ends the cycle either at the advanced
  value clamped to \<open>SAMPLE_LIMIT\<close> or at 0.
\<close>

theorem updateIndices_masterCurrIdx_le:
  assumes "unat (selectedGroup L) < NUM_GROUPS"
  shows "\<exists>L'. updateIndices L nframes = Inr L'
          \<and> masterCurrIdx L' \<le> SAMPLE_LIMIT
          \<and> (masterCurrIdx L' = 0
             \<or> masterCurrIdx L' = (if masterCurrIdx L + nframes > SAMPLE_LIMIT
                                   then SAMPLE_LIMIT else masterCurrIdx L + nframes))"
  using assms
  by (auto simp: updateIndices_def Let_def updateIndices_loop_masterCurrIdx)

theorem updateIndices_masterCurrIdx_le_witness:
  "unat (selectedGroup (nearlyFullLooper SYSTEM_STATE_PLAYBACK)) < NUM_GROUPS
   \<and> (\<exists>L'. updateIndices (nearlyFullLooper SYSTEM_STATE_PLAYBACK) 128 = Inr L'
          \<and> masterCurrIdx L' \<le> SAMPLE_LIMIT
          \<and> (masterCurrIdx L' = 0 \<or> masterCurrIdx L' = SAMPLE_LIMIT))"
proof -
  have h: "unat (selectedGroup (nearlyFullLooper SYSTEM_STATE_PLAYBACK)) < NUM_GROUPS"
    by (simp add: nearlyFullLooper_def idleLooper_def NUM_GROUPS_def)
  have m: "masterCurrIdx (nearlyFullLooper SYSTEM_STATE_PLAYBACK) + 128 > SAMPLE_LIMIT"
    by (simp add: nearlyFullLooper_def idleLooper_def SAMPLE_LIMIT_def)
  show ?thesis
    using h m updateIndices_masterCurrIdx_le [OF h, of 128] by simp
qed

text \<open>
  Claim C2.  The buffer-full guard of the position engine is evaluated at the looper whose
  selected track is 64 samples before \<open>SAMPLE_LIMIT\<close>, with 128 frames.  In the overdubbing
  state the guard is not reached: the position of the track passes \<open>SAMPLE_LIMIT\<close> and the
  system stays in the overdubbing state.  In the recording state the position is clamped
  to \<open>SAMPLE_LIMIT\<close>, the length is kept, and the system goes to playback.
\<close>

theorem updateIndices_buffer_full_overdubbing:
  "map_option selectedTrackStatus
     (resultLooper (updateIndices (nearlyFullLooper SYSTEM_STATE_OVERDUBBING) 128))
     = Some (SAMPLE_LIMIT + 64, SAMPLE_LIMIT, SYSTEM_STATE_OVERDUBBING)
   \<and> map_option selectedTrackStatus
     (resultLooper (updateIndices (nearlyFullLooper SYSTEM_STATE_RECORDING) 128))
     = Some (SAMPLE_LIMIT, SAMPLE_LIMIT, SYSTEM_STATE_PLAYBACK)"
  unfolding updateIndices_def Let_def
  by (simp add: resultLooper_def selectedTrackStatus_def nearlyFullLooper_def
      nearlyFullTrack_def idleLooper_def silentTrack_def updateIndices_loop.simps
      NUM_TRACKS_def NUM_GROUPS_def SAMPLE_LIMIT_def updateTrackIndex_def)

section \<open>Properties of the process cycle\<close>

text \<open>
  With both frame delays at zero and no pending command, a passthrough cycle copies the
  whole input: the left input to the left output and, when there is a right output, the
  right input (or, without a right input, the left input) to it.  The position engine
  does not run.
\<close>

lemma playRecord_passthrough_no_delay:
  assumes "state L = SYSTEM_STATE_PASSTHROUGH" and "\<not> cc_updated cc"
    and "rec_frame_delay L = 0" and "play_frame_delay L = 0"
    and "unat nframes < 2 ^ 30"
    and "length (inL B) = unat nframes" and "length (outL B) = unat nframes"
    and "case inR B of None \<Rightarrow> True | Some r \<Rightarrow> length r = unat nframes"
    and "case outR B of None \<Rightarrow> True | Some r \<Rightarrow> length r = unat nframes"
  shows "playRecord cc L B nframes =
     Some (Inr (cc, L\<lparr>rec_frame_delay := 0, play_frame_delay := 0, controlLocked := False\<rparr>,
                B\<lparr>outL := inL B,
                  outR := (case outR B of None \<Rightarrow> None
                           | Some r \<Rightarrow> (case inR B of None \<Rightarrow> Some (inL B)
                                                        | Some ir \<Rightarrow> Some ir))\<rparr>))"
proof -
  have "unat (nframes * 4) = unat nframes * 4"
    using assms(5) by (simp add: unat_word_ariths)
  then have n: "unat (nframes * 4) div 4 = unat nframes" by simp
  have csc: "controlStateCheck cc L = Inr (cc, L)"
    using assms(2) by (simp add: controlStateCheck_def)
  show ?thesis
  proof (cases "outR B")
    case None
    then show ?thesis
      using assms csc n
      by (simp add: playRecord_def Let_def bind_res_def passthroughBlock_def memcpy_def)
  next
    case (Some r)
    then show ?thesis
      using assms csc n
      by (cases "inR B")
        (simp_all add: playRecord_def Let_def bind_res_def passthroughBlock_def memcpy_def)
  qed
qed

text \<open>
  Claim C1.  A passthrough cycle of four frames whose \<open>rec_frame_delay\<close> is 2 (left by an
  overdub command that the passthrough state ignores) copies \<open>4 - 2\<close> samples: with the
  input 1, 2, 3, 4 the left output holds 1, 2 and, in its last two frames, what it held
  before the cycle, the samples 0, 0, which differ from the input samples 3, 4.
\<close>

theorem playRecord_passthrough_short_copy:
  "cycleOutL (playRecord pendingOverdub delayedPassthrough monoBuffers4 4)
     = Some [float32 1, float32 2, float32 0, float32 0]
   \<and> inL monoBuffers4 = [float32 1, float32 2, float32 3, float32 4]
   \<and> float32 3 \<noteq> float32 0 \<and> float32 4 \<noteq> float32 0
   \<and> map_option state (cycleLooper (playRecord pendingOverdub delayedPassthrough monoBuffers4 4))
       = Some SYSTEM_STATE_PASSTHROUGH"
  by (simp add: cycleOutL_def cycleLooper_def playRecord_def controlStateCheck_def
      controlStateMachine_def pendingOverdub_def delayedPassthrough_def idleControl_def
      idleLooper_def monoBuffers4_def passthroughBlock_def memcpy_def bind_res_def
      float32_int_eq)

section \<open>Properties of the mixdown\<close>

text \<open>
  Claim C5.  The mixdown of four frames is evaluated at a looper whose only track has
  \<open>currIdx = 0\<close> and \<open>endIdx = 2\<close>, with a silent input.  The third output frame is the
  sample at position 2, that is, at \<open>endIdx\<close>: the test in the source is
  \<open>trackIdx <= track->endIdx\<close>.
\<close>

theorem doMixDown_reads_sample_at_endIdx:
  "doMixDown shortLooper (Some [float32 0, float32 0, float32 0, float32 0])
       (Some [float32 0, float32 0, float32 0, float32 0])
       [float32 0, float32 0, float32 0, float32 0] [float32 0, float32 0, float32 0, float32 0] 4
     = Some (Inr ([float32 1, float32 2, float32 3, float32 0],
                  [float32 5, float32 6, float32 7, float32 0]))
   \<and> endIdx (tracks shortLooper 0) = 2
   \<and> channelLeft (tracks shortLooper 0) ! 2 = float32 3
   \<and> float32 3 \<noteq> float32 0"
  by (simp add: doMixDown_def doMixDown_loop.simps mixSample_def addInput_def mixTrack_def
      float_add_int limiter_int float32_int_eq shortLooper_def shortTrack_def idleLooper_def
      silentTrack_def mixTracks_loop.simps NUM_TRACKS_def NUM_GROUPS_def)

section \<open>Properties of the control state machine\<close>

text \<open>
  Claim C10.  A play event applied in the recording or the overdubbing state finalizes the
  selected track of the looper, whatever track and group the command carries: the stop
  function first overwrites the command's track and group with the selected ones, the
  selected track goes to playback and gets its end index, the system goes to playback,
  every other track is unchanged, the master length of every other group and the group
  membership are unchanged, and the result is the same for every track and group number
  in the command.
\<close>

theorem stop_finalizes_selected_track:
  assumes st: "state L = SYSTEM_STATE_RECORDING \<or> state L = SYSTEM_STATE_OVERDUBBING"
    and t: "unat (selectedTrack L) < NUM_TRACKS"
    and g: "unat (selectedGroup L) < NUM_GROUPS"
  shows "\<exists>cc' L'. controlStateMachine SYSTEM_EVENT_PLAY_TRACK cc L = Inr (cc', L')
      \<and> cc_track cc' = selectedTrack L \<and> cc_group cc' = selectedGroup L
      \<and> trackState (tracks L' (unat (selectedTrack L))) = TRACK_STATE_PLAYBACK
      \<and> state L' = SYSTEM_STATE_PLAYBACK
      \<and> (\<forall>i. i \<noteq> unat (selectedTrack L) \<longrightarrow> tracks L' i = tracks L i)
      \<and> endIdx (tracks L' (unat (selectedTrack L))) =
          (if state L = SYSTEM_STATE_OVERDUBBING
              \<and> \<not> endIdx (tracks L (unat (selectedTrack L))) < currIdx (tracks L (unat (selectedTrack L)))
           then endIdx (tracks L (unat (selectedTrack L)))
           else currIdx (tracks L (unat (selectedTrack L))) + play_frame_delay L)
      \<and> (\<forall>x y. controlStateMachine SYSTEM_EVENT_PLAY_TRACK (cc\<lparr>cc_track := x, cc_group := y\<rparr>) L
             = Inr (cc', L'))
      \<and> (\<forall>g. g \<noteq> unat (selectedGroup L) \<longrightarrow> masterLength L' g = masterLength L g)
      \<and> groupedTracks L' = groupedTracks L"
  using st
proof
  assume "state L = SYSTEM_STATE_RECORDING"
  then show ?thesis using t g
    by (simp add: controlStateMachine_def stopRecording_def Let_def)
next
  assume "state L = SYSTEM_STATE_OVERDUBBING"
  then show ?thesis using t g
    by (simp add: controlStateMachine_def stopOverdubbing_def Let_def)
qed

theorem stop_finalizes_selected_track_witness:
  "(state (nearlyFullLooper SYSTEM_STATE_RECORDING) = SYSTEM_STATE_RECORDING
      \<or> state (nearlyFullLooper SYSTEM_STATE_RECORDING) = SYSTEM_STATE_OVERDUBBING)
   \<and> unat (selectedTrack (nearlyFullLooper SYSTEM_STATE_RECORDING)) < NUM_TRACKS
   \<and> unat (selectedGroup (nearlyFullLooper SYSTEM_STATE_RECORDING)) < NUM_GROUPS
   \<and> cc_track otherTrackControl = 5
   \<and> (\<exists>cc' L'. controlStateMachine SYSTEM_EVENT_PLAY_TRACK otherTrackControl
                   (nearlyFullLooper SYSTEM_STATE_RECORDING) = Inr (cc', L')
        \<and> cc_track cc' = 0
        \<and> trackState (tracks L' 0) = TRACK_STATE_PLAYBACK
        \<and> tracks L' 5 = tracks (nearlyFullLooper SYSTEM_STATE_RECORDING) 5
        \<and> endIdx (tracks L' 0) = SAMPLE_LIMIT - 64)"
proof -
  have h1: "state (nearlyFullLooper SYSTEM_STATE_RECORDING) = SYSTEM_STATE_RECORDING
      \<or> state (nearlyFullLooper SYSTEM_STATE_RECORDING) = SYSTEM_STATE_OVERDUBBING"
    by (simp add: nearlyFullLooper_def idleLooper_def)
  have h2: "unat (selectedTrack (nearlyFullLooper SYSTEM_STATE_RECORDING)) < NUM_TRACKS"
    by (simp add: nearlyFullLooper_def idleLooper_def NUM_TRACKS_def)
  have h3: "unat (selectedGroup (nearlyFullLooper SYSTEM_STATE_RECORDING)) < NUM_GROUPS"
    by (simp add: nearlyFullLooper_def idleLooper_def NUM_GROUPS_def)
  have sel: "selectedTrack (nearlyFullLooper SYSTEM_STATE_RECORDING) = 0"
    "play_frame_delay (nearlyFullLooper SYSTEM_STATE_RECORDING) = 0"
    "currIdx (tracks (nearlyFullLooper SYSTEM_STATE_RECORDING) 0) = SAMPLE_LIMIT - 64"
    by (simp_all add: nearlyFullLooper_def idleLooper_def nearlyFullTrack_def)
  have c: "cc_track otherTrackControl = 5"
    by (simp add: otherTrackControl_def idleControl_def)
  from stop_finalizes_selected_track [OF h1 h2 h3, of otherTrackControl]
  obtain cc' L' where r: "controlStateMachine SYSTEM_EVENT_PLAY_TRACK otherTrackControl
                   (nearlyFullLooper SYSTEM_STATE_RECORDING) = Inr (cc', L')"
     "cc_track cc' = selectedTrack (nearlyFullLooper SYSTEM_STATE_RECORDING)"
     "trackState (tracks L' (unat (selectedTrack (nearlyFullLooper SYSTEM_STATE_RECORDING)))) = TRACK_STATE_PLAYBACK"
     "\<forall>i. i \<noteq> unat (selectedTrack (nearlyFullLooper SYSTEM_STATE_RECORDING)) \<longrightarrow> tracks L' i = tracks (nearlyFullLooper SYSTEM_STATE_RECORDING) i"
     "endIdx (tracks L' (unat (selectedTrack (nearlyFullLooper SYSTEM_STATE_RECORDING)))) =
          (if state (nearlyFullLooper SYSTEM_STATE_RECORDING) = SYSTEM_STATE_OVERDUBBING
              \<and> \<not> endIdx (tracks (nearlyFullLooper SYSTEM_STATE_RECORDING) (unat (selectedTrack (nearlyFullLooper SYSTEM_STATE_RECORDING)))) < currIdx (tracks (nearlyFullLooper SYSTEM_STATE_RECORDING) (unat (selectedTrack (nearlyFullLooper SYSTEM_STATE_RECORDING))))
           then endIdx (tracks (nearlyFullLooper SYSTEM_STATE_RECORDING) (unat (selectedTrack (nearlyFullLooper SYSTEM_STATE_RECORDING))))
           else currIdx (tracks (nearlyFullLooper SYSTEM_STATE_RECORDING) (unat (selectedTrack (nearlyFullLooper SYSTEM_STATE_RECORDING)))) + play_frame_delay (nearlyFullLooper SYSTEM_STATE_RECORDING))"
    by blast
  have "state (nearlyFullLooper SYSTEM_STATE_RECORDING) = SYSTEM_STATE_RECORDING"
    by (simp add: nearlyFullLooper_def idleLooper_def)
  with r sel have "cc_track cc' = 0" "trackState (tracks L' 0) = TRACK_STATE_PLAYBACK"
     "tracks L' 5 = tracks (nearlyFullLooper SYSTEM_STATE_RECORDING) 5"
     "endIdx (tracks L' 0) = SAMPLE_LIMIT - 64"
    by simp_all
  with r(1) h1 h2 h3 c show ?thesis by blast
qed

section \<open>Properties of the command decoder\<close>








section \<open>Properties of \<open>overdub\<close>\<close>

lemma unat8_lt: "unat (s :: u8) < 256"
  using unsigned_less [of s, where 'a = nat] by simp

lemma unat8_Suc: "unat (s :: u8) < 255 \<Longrightarrow> unat (s + 1) = unat s + 1"
  by (simp add: unat_word_ariths)

lemma overdub_loop_run:
  "unat nframes < 256 \<Longrightarrow> unat sample \<le> unat nframes
   \<Longrightarrow> d = unat nframes - unat sample
   \<Longrightarrow> p + d \<le> length inp \<Longrightarrow> toff + unat nframes \<le> length trk
   \<Longrightarrow> \<exists>trk'. overdub_loop inp toff nframes p sample trk = Some (Inr trk')
        \<and> length trk' = length trk
        \<and> (\<forall>i. unat sample \<le> i \<and> i < unat nframes
              \<longrightarrow> trk' ! (toff + i)
                  = limiter (float_add (inp ! (p + (i - unat sample))) (trk ! (toff + i))))
        \<and> (\<forall>j < length trk. j < toff + unat sample \<or> toff + unat nframes \<le> j
              \<longrightarrow> trk' ! j = trk ! j)"
proof (induction d arbitrary: sample p trk)
  case 0
  then have "\<not> unat sample < unat nframes" by simp
  then show ?case using 0 by (auto simp add: overdub_loop.simps [of inp toff nframes p sample trk])
next
  case (Suc d)
  let ?k = "unat sample"
  let ?v = "limiter (float_add (inp ! p) (trk ! (toff + ?k)))"
  let ?trk1 = "trk[toff + ?k := ?v]"
  from Suc.prems have lt: "?k < unat nframes" by simp
  with Suc.prems have k255: "?k < 255" by simp
  then have suc: "unat (sample + 1) = ?k + 1" by (rule unat8_Suc)
  have inb: "\<not> (length inp \<le> p \<or> length trk \<le> toff + ?k)"
    using Suc.prems lt by simp
  have step: "overdub_loop inp toff nframes p sample trk
      = overdub_loop inp toff nframes (p + 1) (sample + 1) ?trk1"
    using lt inb by (simp add: overdub_loop.simps [of inp toff nframes p sample trk])
  have "\<exists>trk'. overdub_loop inp toff nframes (p + 1) (sample + 1) ?trk1 = Some (Inr trk')
        \<and> length trk' = length ?trk1
        \<and> (\<forall>i. unat (sample + 1) \<le> i \<and> i < unat nframes
              \<longrightarrow> trk' ! (toff + i)
                   = limiter (float_add (inp ! (p + 1 + (i - unat (sample + 1))))
                                        (?trk1 ! (toff + i))))
        \<and> (\<forall>j < length ?trk1. j < toff + unat (sample + 1) \<or> toff + unat nframes \<le> j
              \<longrightarrow> trk' ! j = ?trk1 ! j)"
    using Suc.prems suc lt by (intro Suc.IH) simp_all
  then obtain trk' where r: "overdub_loop inp toff nframes (p + 1) (sample + 1) ?trk1 = Some (Inr trk')"
    and len: "length trk' = length trk"
    and upd: "\<And>i. ?k + 1 \<le> i \<Longrightarrow> i < unat nframes
              \<Longrightarrow> trk' ! (toff + i)
                  = limiter (float_add (inp ! (p + 1 + (i - (?k + 1)))) (?trk1 ! (toff + i)))"
    and keep: "\<And>j. j < length trk \<Longrightarrow> j < toff + ?k + 1 \<or> toff + unat nframes \<le> j
              \<Longrightarrow> trk' ! j = ?trk1 ! j"
    using suc by auto
  have a: "\<forall>i. ?k \<le> i \<and> i < unat nframes
              \<longrightarrow> trk' ! (toff + i)
                  = limiter (float_add (inp ! (p + (i - ?k))) (trk ! (toff + i)))"
  proof (intro allI impI)
    fix i assume i: "?k \<le> i \<and> i < unat nframes"
    show "trk' ! (toff + i) = limiter (float_add (inp ! (p + (i - ?k))) (trk ! (toff + i)))"
    proof (cases "i = ?k")
      case True
      have "trk' ! (toff + ?k) = ?trk1 ! (toff + ?k)"
        using keep [of "toff + ?k"] inb by simp
      also have "\<dots> = ?v" using inb by simp
      finally show ?thesis using True by simp
    next
      case False
      with i have i1: "?k + 1 \<le> i" "i < unat nframes" by simp_all
      then have e: "p + 1 + (i - (?k + 1)) = p + (i - ?k)" by simp
      have "?trk1 ! (toff + i) = trk ! (toff + i)" using False by simp
      then show ?thesis using upd [OF i1] unfolding e by simp
    qed
  qed
  have b: "\<forall>j < length trk. j < toff + ?k \<or> toff + unat nframes \<le> j \<longrightarrow> trk' ! j = trk ! j"
  proof (intro allI impI)
    fix j assume j: "j < length trk" and o: "j < toff + ?k \<or> toff + unat nframes \<le> j"
    then have "trk' ! j = ?trk1 ! j" using keep [of j] by auto
    moreover have "j \<noteq> toff + ?k" using o lt by auto
    ultimately show "trk' ! j = trk ! j" by simp
  qed
  show ?case using step r len a b by simp
qed

text \<open>
  With 256 frames or more the counter \<open>sample\<close> never reaches \<open>nframes\<close>: \<open>overdub\<close> does
  not return a buffer.
\<close>

lemma overdub_loop_no_value:
  assumes "overdub_loop inp toff nframes p sample trk = Some r" and "256 \<le> unat nframes"
  shows "isl r"
proof -
  have "256 \<le> unat nframes \<longrightarrow> isl r"
  proof (rule overdub_loop.raw_induct
      [where P = "\<lambda>inp toff nframes p sample trk r. 256 \<le> unat nframes \<longrightarrow> isl r", OF _ assms(1)])
    fix f :: "sample list \<Rightarrow> nat \<Rightarrow> u32 \<Rightarrow> nat \<Rightarrow> u8 \<Rightarrow> sample list \<Rightarrow> (fault + sample list) option"
      and inp toff p trk r and nframes :: u32 and sample :: u8
    assume IH: "\<And>inp toff nframes p sample trk r.
        f inp toff nframes p sample trk = Some r \<Longrightarrow> 256 \<le> unat nframes \<longrightarrow> isl r"
      and step: "(if unat sample < unat nframes then
           (if length inp \<le> p \<or> length trk \<le> toff + unat sample then Some (Inl OutOfBounds)
            else f inp toff nframes (p + 1) (sample + 1)
                   (trk[toff + unat sample :=
                          limiter (float_add (inp ! p) (trk ! (toff + unat sample)))]))
         else Some (Inr trk)) = Some r"
    show "256 \<le> unat nframes \<longrightarrow> isl r"
    proof
      assume big: "256 \<le> unat nframes"
      then have lt: "unat sample < unat nframes" using unat8_lt [of sample] by simp
      show "isl r"
      proof (cases "length inp \<le> p \<or> length trk \<le> toff + unat sample")
        case True
        with step lt show ?thesis by auto
      next
        case False
        with step lt have "f inp toff nframes (p + 1) (sample + 1)
                   (trk[toff + unat sample :=
                          limiter (float_add (inp ! p) (trk ! (toff + unat sample)))]) = Some r"
          by simp
        from IH [OF this] big show ?thesis by simp
      qed
    qed
  qed
  with assms(2) show ?thesis by simp
qed

text \<open>
  The scenario of the specification in which the sample \<open>0.8 * FLT_MAX\<close> is overdubbed
  onto a track that holds \<open>0.8 * FLT_MAX\<close>: the single-precision sum overflows to plus
  infinity, which the limiter leaves as it is.
\<close>

lemma overdub_overflow_stores_infinity:
  "overdub [float32 (8 / 10 * FLT_MAX)] 0 [float32 (8 / 10 * FLT_MAX)] 0 1 = Some (Inr [PlusInf])"
  using float_add_overflow by (simp add: overdub_def overdub_loop.simps limiter_def)

text \<open>
  Claim C4, as amended.  For a frame count below 256 and buffers that hold the frames,
  \<open>overdub\<close> returns, and stores for each \<open>i < nframes\<close> the single-precision sum of the
  input sample and the track sample, multiplied by 0.9 (in double precision, then
  rounded to single precision) when the sum is greater than \<open>0.9 * FLT_MAX\<close>, and
  unchanged otherwise.  For two finite samples, with \<open>s\<close> their exact sum rounded to
  single precision: the stored value is plus infinity when \<open>s\<close> is above \<open>FLT_MAX\<close>; it
  is \<open>s\<close> times 0.9, rounded to double and then to single precision, when \<open>s\<close> is above
  \<open>0.9 * FLT_MAX\<close> and not above \<open>FLT_MAX\<close>; and it is \<open>s\<close> itself otherwise, or minus
  infinity when \<open>s\<close> is below \<open>-FLT_MAX\<close>.  In particular an exact sum that is negative or
  zero is never scaled.  The rest of the track buffer is unchanged.
\<close>

theorem overdub_stores_limited_sum:
  assumes "unat nframes < 256"
    and "ioff + unat nframes \<le> length inp" and "toff + unat nframes \<le> length trk"
  shows "\<exists>trk'. overdub inp ioff trk toff nframes = Some (Inr trk')
     \<and> length trk' = length trk
     \<and> (\<forall>i < unat nframes.
          trk' ! (toff + i) =
            (if exceedsLimit (float_add (inp ! (ioff + i)) (trk ! (toff + i)))
             then scale09 (float_add (inp ! (ioff + i)) (trk ! (toff + i)))
             else float_add (inp ! (ioff + i)) (trk ! (toff + i))))
     \<and> (\<forall>i < unat nframes. \<forall>a b.
          inp ! (ioff + i) = Finite a \<and> trk ! (toff + i) = Finite b
          \<longrightarrow> trk' ! (toff + i) =
               (let s = round_to 24 (- 149) (valueOf a + valueOf b) in
                if FLT_MAX < s then PlusInf
                else if 9 / 10 * FLT_MAX < s then float32 (to_double (s * DOUBLE_0_9))
                else float32 (valueOf a + valueOf b)))
     \<and> (\<forall>i < unat nframes. \<forall>a b.
          inp ! (ioff + i) = Finite a \<and> trk ! (toff + i) = Finite b
          \<and> valueOf a + valueOf b \<le> 0
          \<longrightarrow> trk' ! (toff + i) = float32 (valueOf a + valueOf b))
     \<and> (\<forall>j < length trk. j < toff \<or> toff + unat nframes \<le> j \<longrightarrow> trk' ! j = trk ! j)"
proof -
  from overdub_loop_run [of nframes 0 "unat nframes" ioff inp toff trk] assms
  obtain trk' where r: "overdub_loop inp toff nframes ioff 0 trk = Some (Inr trk')"
    and len: "length trk' = length trk"
    and upd: "\<forall>i. i < unat nframes \<longrightarrow>
        trk' ! (toff + i) = limiter (float_add (inp ! (ioff + i)) (trk ! (toff + i)))"
    and keep: "\<forall>j < length trk. j < toff \<or> toff + unat nframes \<le> j \<longrightarrow> trk' ! j = trk ! j"
    by auto
  have fin: "\<forall>i < unat nframes. \<forall>a b.
          inp ! (ioff + i) = Finite a \<and> trk ! (toff + i) = Finite b
          \<longrightarrow> trk' ! (toff + i) =
               (let s = round_to 24 (- 149) (valueOf a + valueOf b) in
                if FLT_MAX < s then PlusInf
                else if 9 / 10 * FLT_MAX < s then float32 (to_double (s * DOUBLE_0_9))
                else float32 (valueOf a + valueOf b))"
    using upd by (simp add: limiter_float32)
  have neg: "\<forall>i < unat nframes. \<forall>a b.
          inp ! (ioff + i) = Finite a \<and> trk ! (toff + i) = Finite b
          \<and> valueOf a + valueOf b \<le> 0
          \<longrightarrow> trk' ! (toff + i) = float32 (valueOf a + valueOf b)"
    using upd by (simp add: limiter_nonpos)
  have "\<forall>i < unat nframes.
          trk' ! (toff + i) =
            (if exceedsLimit (float_add (inp ! (ioff + i)) (trk ! (toff + i)))
             then scale09 (float_add (inp ! (ioff + i)) (trk ! (toff + i)))
             else float_add (inp ! (ioff + i)) (trk ! (toff + i)))"
    using upd by (simp add: limiter_def)
  then show ?thesis using r len fin neg keep unfolding overdub_def by blast
qed

theorem overdub_stores_limited_sum_witness:
  "unat (2 :: u32) < 256 \<and> 0 + unat (2 :: u32) \<le> length loudInput
   \<and> 0 + unat (2 :: u32) \<le> length loudTrack
   \<and> (\<exists>trk'. overdub loudInput 0 loudTrack 0 2 = Some (Inr trk')
        \<and> trk' ! 0 = float32 (- (15 * 2 ^ 124)) \<and> trk' ! 1 = float32 (27 * 2 ^ 123))"
proof -
  have h: "unat (2 :: u32) < 256" "0 + unat (2 :: u32) \<le> length loudInput"
    "0 + unat (2 :: u32) \<le> length loudTrack"
    by (simp_all add: loudInput_def loudTrack_def)
  from overdub_stores_limited_sum [OF h]
  obtain trk' where r: "overdub loudInput 0 loudTrack 0 2 = Some (Inr trk')"
    and v: "\<forall>i < unat (2 :: u32). trk' ! (0 + i) =
            (if exceedsLimit (float_add (loudInput ! (0 + i)) (loudTrack ! (0 + i)))
             then scale09 (float_add (loudInput ! (0 + i)) (loudTrack ! (0 + i)))
             else float_add (loudInput ! (0 + i)) (loudTrack ! (0 + i)))"
    by blast
  have n: "\<not> exceedsLimit (float32 (- (15 * 2 ^ 124)))" by (rule exceedsLimit_nonpos) simp
  from v have "trk' ! (0 + 0) =
            (if exceedsLimit (float_add (loudInput ! (0 + 0)) (loudTrack ! (0 + 0)))
             then scale09 (float_add (loudInput ! (0 + 0)) (loudTrack ! (0 + 0)))
             else float_add (loudInput ! (0 + 0)) (loudTrack ! (0 + 0)))"
    by simp
  then have v0: "trk' ! 0 = float32 (- (15 * 2 ^ 124))"
    using n float_add_loud_negative by (simp add: loudInput_def loudTrack_def)
  from v have "trk' ! (0 + 1) =
            (if exceedsLimit (float_add (loudInput ! (0 + 1)) (loudTrack ! (0 + 1)))
             then scale09 (float_add (loudInput ! (0 + 1)) (loudTrack ! (0 + 1)))
             else float_add (loudInput ! (0 + 1)) (loudTrack ! (0 + 1)))"
    by simp
  then have v1: "trk' ! 1 = float32 (27 * 2 ^ 123)"
    using limiter_loud_positive float_add_loud_positive
    by (simp add: loudInput_def loudTrack_def)
  from r h v0 v1 show ?thesis by blast
qed

text \<open>
  Claim C4, as stated, fails for a negative sum: the sum \<open>-15 * 2 ^ 124\<close> of the two
  samples \<open>-2 ^ 127\<close> and \<open>-7 * 2 ^ 124\<close>, whose absolute value exceeds \<open>0.9 * FLT_MAX\<close>,
  is stored as it is and not scaled by 0.9; scaled by 0.9 it would be \<open>-27 * 2 ^ 123\<close>.
\<close>

theorem overdub_negative_sum_not_limited:
  "overdub [float32 (- (2 ^ 127))] 0 [float32 (- (7 * 2 ^ 124))] 0 1
     = Some (Inr [float32 (- (15 * 2 ^ 124))])
   \<and> (\<exists>v. float32 (- (15 * 2 ^ 124)) = Finite v \<and> valueOf v = - (15 * 2 ^ 124))
   \<and> - (2 ^ 127) + - (7 * 2 ^ 124) = (- (15 * 2 ^ 124) :: real)
   \<and> \<bar>- (15 * 2 ^ 124) :: real\<bar> > 0.9 * FLT_MAX
   \<and> (- (15 * 2 ^ 124) :: real) \<noteq> 0.9 * (- (15 * 2 ^ 124))
   \<and> scale09 (float32 (- (15 * 2 ^ 124))) = float32 (- (27 * 2 ^ 123))
   \<and> float32 (- (27 * 2 ^ 123)) \<noteq> float32 (- (15 * 2 ^ 124))"
proof -
  have n: "\<not> exceedsLimit (float32 (- (15 * 2 ^ 124)))" by (rule exceedsLimit_nonpos) simp
  have "overdub [float32 (- (2 ^ 127))] 0 [float32 (- (7 * 2 ^ 124))] 0 1
     = Some (Inr [float32 (- (15 * 2 ^ 124))])"
    using n float_add_loud_negative by (simp add: overdub_def overdub_loop.simps limiter_def)
  moreover have "\<exists>v. float32 (- (15 * 2 ^ 124)) = Finite v \<and> valueOf v = - (15 * 2 ^ 124)"
    using float32_loud_negative_value by blast
  moreover have "\<bar>- (15 * 2 ^ 124) :: real\<bar> > 0.9 * FLT_MAX" by (simp add: FLT_MAX_def)
  ultimately show ?thesis using scale09_loud_negative by simp
qed

section \<open>The loop of the position engine, track by track\<close>

text \<open>
  An iteration of the loop changes the track of its own index only, and the master
  length and the system state only in the iteration of the selected track.  So the
  selected track, the master length and the system state after the loop are those after
  the single iteration of the selected track.
\<close>

lemma updateTrackIndex_other_track:
  "j \<noteq> idx \<Longrightarrow> tracks (updateTrackIndex sg st n idx L) j = tracks L j"
  by (simp add: updateTrackIndex_def Let_def)

lemma updateTrackIndex_groupedTracks:
  "groupedTracks (updateTrackIndex sg st n idx L) = groupedTracks L"
  by (simp add: updateTrackIndex_def Let_def)

lemma updateTrackIndex_not_selected:
  "idx \<noteq> unat st \<Longrightarrow> masterLength (updateTrackIndex sg st n idx L) = masterLength L
     \<and> state (updateTrackIndex sg st n idx L) = state L"
  by (auto simp add: updateTrackIndex_def Let_def)

lemma updateTrackIndex_cong:
  assumes "tracks L1 t = tracks L2 t" and "groupedTracks L1 sg t = groupedTracks L2 sg t"
    and "state L1 = state L2" and "masterLength L1 = masterLength L2"
    and "masterCurrIdx L1 = masterCurrIdx L2"
  shows "tracks (updateTrackIndex sg st n t L1) t = tracks (updateTrackIndex sg st n t L2) t
     \<and> masterLength (updateTrackIndex sg st n t L1) = masterLength (updateTrackIndex sg st n t L2)
     \<and> state (updateTrackIndex sg st n t L1) = state (updateTrackIndex sg st n t L2)"
proof (cases "groupedTracks L2 sg t \<and> trackState (tracks L2 t) \<noteq> TRACK_STATE_OFF")
  case False
  then have "\<not> (groupedTracks L1 sg t \<and> trackState (tracks L1 t) \<noteq> TRACK_STATE_OFF)"
    using assms by simp
  then have "updateTrackIndex sg st n t L1 = L1" unfolding updateTrackIndex_def by (rule if_not_P)
  moreover have "updateTrackIndex sg st n t L2 = L2"
    unfolding updateTrackIndex_def using False by (rule if_not_P)
  ultimately show ?thesis using assms by simp
next
  case active: True
  then have a2: "groupedTracks L2 sg t" "trackState (tracks L2 t) \<noteq> TRACK_STATE_OFF"
    by simp_all
  consider (cal) "unat st = t" "state L2 = SYSTEM_STATE_CALIBRATION"
    | (rec) "unat st = t" "state L2 = SYSTEM_STATE_RECORDING"
    | (other) "unat st \<noteq> t"
    | (play) "state L2 \<noteq> SYSTEM_STATE_CALIBRATION" "state L2 \<noteq> SYSTEM_STATE_RECORDING"
    by blast
  then show ?thesis
  proof cases
    case cal
    then show ?thesis using a2 assms by (simp add: updateTrackIndex_def Let_def)
  next
    case rec
    then show ?thesis using a2 assms by (simp add: updateTrackIndex_def Let_def)
  next
    case other
    then show ?thesis using a2 assms by (simp add: updateTrackIndex_def Let_def)
  next
    case play
    then show ?thesis using a2 assms by (simp add: updateTrackIndex_def Let_def)
  qed
qed

lemma updateIndices_loop_step:
  "idx < NUM_TRACKS \<Longrightarrow> updateIndices_loop sg st n idx L
     = updateIndices_loop sg st n (idx + 1) (updateTrackIndex sg st n idx L)"
  by (simp add: updateIndices_loop.simps [of sg st n idx L])

lemma updateIndices_loop_stop:
  "\<not> idx < NUM_TRACKS \<Longrightarrow> updateIndices_loop sg st n idx L = L"
  by (simp add: updateIndices_loop.simps [of sg st n idx L])

lemma updateIndices_loop_passed_track:
  "j < idx \<Longrightarrow> tracks (updateIndices_loop sg st n idx L) j = tracks L j"
proof (induction sg st n idx L rule: updateIndices_loop.induct)
  case (1 sg st n idx L)
  show ?case
  proof (cases "idx < NUM_TRACKS")
    case True
    then show ?thesis
      using "1.IH" "1.prems"
      by (simp add: updateIndices_loop_step updateTrackIndex_other_track)
  next
    case False
    then show ?thesis by (simp add: updateIndices_loop_stop)
  qed
qed

lemma updateIndices_loop_passed_selected:
  "unat st < idx \<Longrightarrow> masterLength (updateIndices_loop sg st n idx L) = masterLength L
     \<and> state (updateIndices_loop sg st n idx L) = state L"
proof (induction sg st n idx L rule: updateIndices_loop.induct)
  case (1 sg st n idx L)
  show ?case
  proof (cases "idx < NUM_TRACKS")
    case True
    then show ?thesis
      using "1.IH" "1.prems" updateTrackIndex_not_selected [of idx st sg n L]
      by (simp add: updateIndices_loop_step)
  next
    case False
    then show ?thesis by (simp add: updateIndices_loop_stop)
  qed
qed

lemma updateIndices_loop_groupedTracks:
  "groupedTracks (updateIndices_loop sg st n idx L) = groupedTracks L"
proof (induction sg st n idx L rule: updateIndices_loop.induct)
  case (1 sg st n idx L)
  show ?case
  proof (cases "idx < NUM_TRACKS")
    case True
    then show ?thesis
      using "1.IH" by (simp add: updateIndices_loop_step updateTrackIndex_groupedTracks)
  next
    case False
    then show ?thesis by (simp add: updateIndices_loop_stop)
  qed
qed

lemma updateIndices_loop_selected:
  "idx \<le> t \<Longrightarrow> t < NUM_TRACKS \<Longrightarrow> unat st = t
   \<Longrightarrow> tracks (updateIndices_loop sg st n idx L) t = tracks (updateTrackIndex sg st n t L) t
     \<and> masterLength (updateIndices_loop sg st n idx L) = masterLength (updateTrackIndex sg st n t L)
     \<and> state (updateIndices_loop sg st n idx L) = state (updateTrackIndex sg st n t L)"
proof (induction sg st n idx L rule: updateIndices_loop.induct)
  case (1 sg st n idx L)
  from "1.prems" have lt: "idx < NUM_TRACKS" by simp
  show ?case
  proof (cases "idx = t")
    case True
    have "unat st < t + 1" using "1.prems" by simp
    then show ?thesis
      using True lt updateIndices_loop_passed_track [of t "t + 1" sg st n]
        updateIndices_loop_passed_selected [of st "t + 1" sg n]
      by (simp add: updateIndices_loop_step)
  next
    case False
    with "1.prems" have le: "idx + 1 \<le> t" and ne: "idx \<noteq> unat st" by simp_all
    let ?L1 = "updateTrackIndex sg st n idx L"
    have ih: "tracks (updateIndices_loop sg st n (idx + 1) ?L1) t
          = tracks (updateTrackIndex sg st n t ?L1) t
        \<and> masterLength (updateIndices_loop sg st n (idx + 1) ?L1)
          = masterLength (updateTrackIndex sg st n t ?L1)
        \<and> state (updateIndices_loop sg st n (idx + 1) ?L1)
          = state (updateTrackIndex sg st n t ?L1)"
      using "1.IH" [OF lt le] "1.prems" by simp
    have "tracks ?L1 t = tracks L t" using False by (simp add: updateTrackIndex_other_track)
    moreover have "groupedTracks ?L1 sg t = groupedTracks L sg t"
      by (simp add: updateTrackIndex_groupedTracks)
    moreover have "state ?L1 = state L" "masterLength ?L1 = masterLength L"
      using updateTrackIndex_not_selected [OF ne, of sg n L] by simp_all
    moreover have "masterCurrIdx ?L1 = masterCurrIdx L"
      by (simp add: updateTrackIndex_masterCurrIdx)
    ultimately have "tracks (updateTrackIndex sg st n t ?L1) t = tracks (updateTrackIndex sg st n t L) t
     \<and> masterLength (updateTrackIndex sg st n t ?L1) = masterLength (updateTrackIndex sg st n t L)
     \<and> state (updateTrackIndex sg st n t ?L1) = state (updateTrackIndex sg st n t L)"
      by (rule updateTrackIndex_cong)
    with ih show ?thesis using lt by (simp add: updateIndices_loop_step)
  qed
qed


lemma updateTrackIndex_recording:
  assumes "groupedTracks L sg t" and "trackState (tracks L t) \<noteq> TRACK_STATE_OFF"
    and "unat st = t" and "state L = SYSTEM_STATE_RECORDING"
  shows "currIdx (tracks (updateTrackIndex sg st n t L) t)
           = (if currIdx (tracks L t) + n > SAMPLE_LIMIT then SAMPLE_LIMIT
              else currIdx (tracks L t) + n)"
    and "endIdx (tracks (updateTrackIndex sg st n t L) t)
           = max (endIdx (tracks L t)) (currIdx (tracks (updateTrackIndex sg st n t L) t))"
    and "startIdx (tracks (updateTrackIndex sg st n t L) t) = startIdx (tracks L t)"
    and "masterLength (updateTrackIndex sg st n t L)
           = (masterLength L)(sg := max (masterLength L sg)
                (endIdx (tracks (updateTrackIndex sg st n t L) t)))"
  using assms by (auto simp add: updateTrackIndex_def Let_def max_def)

section \<open>Invariants\<close>





lemma startRecording_Inr:
  assumes "startRecording cc L = Inr L1"
  shows "unat (cc_group cc) < NUM_GROUPS" and "unat (cc_track cc) < NUM_TRACKS"
    and "state L1 = SYSTEM_STATE_RECORDING"
    and "selectedTrack L1 = cc_track cc" and "selectedGroup L1 = cc_group cc"
    and "groupedTracks L1 (unat (cc_group cc)) (unat (cc_track cc))"
    and "endIdx (tracks L1 (unat (cc_track cc))) = 0"
    and "currIdx (tracks L1 (unat (cc_track cc))) = masterCurrIdx L1"
    and "startIdx (tracks L1 (unat (cc_track cc))) = masterCurrIdx L1"
    and "trackState (tracks L1 (unat (cc_track cc))) = TRACK_STATE_RECORDING"
    and "masterCurrIdx L1 = 0 \<or> masterCurrIdx L1 = masterCurrIdx L"
  using assms
  by (auto simp: startRecording_def Let_def split: if_splits sum.splits)

text \<open>
  Claim C7, as amended.  \<open>startRecording\<close> leaves the recorded track with \<open>endIdx = 0\<close>
  and \<open>startIdx = currIdx = masterCurrIdx\<close>.  The first run of the position engine after
  it (the master index being at most \<open>SAMPLE_LIMIT\<close> and the frame count not wrapping the
  32-bit index) re-establishes \<open>startIdx \<le> endIdx \<le> SAMPLE_LIMIT\<close> and
  \<open>currIdx \<le> SAMPLE_LIMIT\<close> for that track.
\<close>

theorem startRecording_then_first_cycle:
  assumes sr: "startRecording cc L = Inr L1"
    and m: "masterCurrIdx L \<le> SAMPLE_LIMIT"
    and nw: "unat (masterCurrIdx L) + unat nframes < 2 ^ 32"
  shows "endIdx (tracks L1 (unat (cc_track cc))) = 0
     \<and> startIdx (tracks L1 (unat (cc_track cc))) = masterCurrIdx L1
     \<and> currIdx (tracks L1 (unat (cc_track cc))) = masterCurrIdx L1
     \<and> (\<exists>L2. updateIndices L1 nframes = Inr L2
          \<and> startIdx (tracks L2 (unat (cc_track cc))) \<le> endIdx (tracks L2 (unat (cc_track cc)))
          \<and> endIdx (tracks L2 (unat (cc_track cc))) \<le> SAMPLE_LIMIT
          \<and> currIdx (tracks L2 (unat (cc_track cc))) \<le> SAMPLE_LIMIT)"
proof -
  note f = startRecording_Inr [OF sr]
  let ?sg = "unat (selectedGroup L1)" and ?t = "unat (cc_track cc)"
  let ?m = "masterCurrIdx L1 + nframes"
  let ?L1 = "L1\<lparr>masterCurrIdx := (if ?m > SAMPLE_LIMIT then SAMPLE_LIMIT else ?m)\<rparr>"
  let ?L2 = "updateIndices_loop ?sg (selectedTrack L1) nframes 0 ?L1"
  let ?U = "updateTrackIndex ?sg (selectedTrack L1) nframes ?t ?L1"
  let ?L' = "if state ?L2 = SYSTEM_STATE_PLAYBACK \<and> masterCurrIdx ?L2 > masterLength ?L2 ?sg
             then ?L2\<lparr>masterCurrIdx := 0\<rparr> else ?L2"
  have r: "updateIndices L1 nframes = Inr ?L'"
    using f(1) f(5) by (simp add: updateIndices_def Let_def)
  have sel: "tracks ?L2 ?t = tracks ?U ?t"
    using updateIndices_loop_selected [of 0 ?t "selectedTrack L1" ?sg nframes ?L1] f(2) f(4)
    by simp
  have pre: "groupedTracks ?L1 ?sg ?t" "trackState (tracks ?L1 ?t) \<noteq> TRACK_STATE_OFF"
    "unat (selectedTrack L1) = ?t" "state ?L1 = SYSTEM_STATE_RECORDING"
    using f by simp_all
  have c: "currIdx (tracks ?U ?t)
           = (if masterCurrIdx L1 + nframes > SAMPLE_LIMIT then SAMPLE_LIMIT
              else masterCurrIdx L1 + nframes)"
    using updateTrackIndex_recording(1) [OF pre, of nframes] f(8) by simp
  have e: "endIdx (tracks ?U ?t) = currIdx (tracks ?U ?t)"
    using updateTrackIndex_recording(2) [OF pre, of nframes] f(7) by (simp add: max_def)
  have s: "startIdx (tracks ?U ?t) = masterCurrIdx L1"
    using updateTrackIndex_recording(3) [OF pre, of nframes] f(9) by simp
  have m1: "masterCurrIdx L1 \<le> SAMPLE_LIMIT" using f(11) m by auto
  have "unat (masterCurrIdx L1) + unat nframes < 2 ^ 32" using f(11) nw by auto
  then have grow: "masterCurrIdx L1 \<le> masterCurrIdx L1 + nframes"
    by (simp add: no_olen_add_nat)
  have "startIdx (tracks ?U ?t) \<le> endIdx (tracks ?U ?t)"
    using c e s m1 grow by simp
  moreover have "currIdx (tracks ?U ?t) \<le> SAMPLE_LIMIT" using c by (simp add: not_less)
  ultimately have "startIdx (tracks ?L' ?t) \<le> endIdx (tracks ?L' ?t)
          \<and> endIdx (tracks ?L' ?t) \<le> SAMPLE_LIMIT \<and> currIdx (tracks ?L' ?t) \<le> SAMPLE_LIMIT"
    using sel e by simp
  with r f(7) f(8) f(9) show ?thesis by blast
qed

theorem startRecording_then_first_cycle_witness:
  "startRecording recordTrack2 fullGroupLooper = Inr recordingTrack2Looper
   \<and> masterCurrIdx fullGroupLooper \<le> SAMPLE_LIMIT
   \<and> unat (masterCurrIdx fullGroupLooper) + unat (128 :: u32) < 2 ^ 32
   \<and> (\<exists>L2. updateIndices recordingTrack2Looper 128 = Inr L2
          \<and> startIdx (tracks L2 2) \<le> endIdx (tracks L2 2)
          \<and> endIdx (tracks L2 2) \<le> SAMPLE_LIMIT)"
proof -
  have sr: "startRecording recordTrack2 fullGroupLooper = Inr recordingTrack2Looper"
    unfolding startRecording_def getNumActiveTracks_def Let_def
    by (simp add: recordingTrack2Looper_def recordTrack2_def fullGroupLooper_def
        idleControl_def idleLooper_def playingTrack_def silentTrack_def
        getNumActiveTracks_loop.simps NUM_TRACKS_def NUM_GROUPS_def)
  have m: "masterCurrIdx fullGroupLooper \<le> SAMPLE_LIMIT"
    by (simp add: fullGroupLooper_def idleLooper_def SAMPLE_LIMIT_def)
  have nw: "unat (masterCurrIdx fullGroupLooper) + unat (128 :: u32) < 2 ^ 32"
    by (simp add: fullGroupLooper_def idleLooper_def)
  have t: "unat (cc_track recordTrack2) = 2" by (simp add: recordTrack2_def idleControl_def)
  from startRecording_then_first_cycle [OF sr m nw] t
  have "\<exists>L2. updateIndices recordingTrack2Looper 128 = Inr L2
          \<and> startIdx (tracks L2 2) \<le> endIdx (tracks L2 2)
          \<and> endIdx (tracks L2 2) \<le> SAMPLE_LIMIT"
    by auto
  with sr m nw show ?thesis by blast
qed

text \<open>
  Claim C7, as stated, fails immediately after \<open>startRecording\<close>: track 2 goes from the
  indices (0, 0, 0) to \<open>startIdx = currIdx = 128\<close> and \<open>endIdx = 0\<close>.
\<close>

theorem startRecording_startIdx_above_endIdx:
  "trackIndices 2 fullGroupLooper = (0, 0, 0)
   \<and> map_option (trackIndices 2) (resultLooper (startRecording recordTrack2 fullGroupLooper))
       = Some (128, 128, 0)"
  unfolding startRecording_def getNumActiveTracks_def Let_def
  by (simp add: trackIndices_def resultLooper_def recordTrack2_def fullGroupLooper_def
      idleControl_def idleLooper_def playingTrack_def silentTrack_def
      getNumActiveTracks_loop.simps NUM_TRACKS_def NUM_GROUPS_def)

section \<open>The repeat scenario\<close>
























section \<open>The buffer-full guard in the recording state\<close>

text \<open>
  In the recording state the guard of the position engine does what the overdubbing state
  misses: when the selected track, an active member of the selected group, would pass
  \<open>SAMPLE_LIMIT\<close>, its position is clamped to \<open>SAMPLE_LIMIT\<close>, the system goes to playback,
  the end index does not shrink and the two channel buffers are untouched.
\<close>

lemma updateTrackIndex_recording_full:
  assumes "groupedTracks L sg t" and "trackState (tracks L t) \<noteq> TRACK_STATE_OFF"
    and "unat st = t" and "state L = SYSTEM_STATE_RECORDING"
  shows "state (updateTrackIndex sg st n t L)
           = (if currIdx (tracks L t) + n > SAMPLE_LIMIT then SYSTEM_STATE_PLAYBACK
              else SYSTEM_STATE_RECORDING)"
    and "channelLeft (tracks (updateTrackIndex sg st n t L) t) = channelLeft (tracks L t)"
    and "channelRight (tracks (updateTrackIndex sg st n t L) t) = channelRight (tracks L t)"
  using assms by (auto simp add: updateTrackIndex_def Let_def)

lemma updateIndices_buffer_full_recording:
  assumes rec: "state L = SYSTEM_STATE_RECORDING"
    and g: "unat (selectedGroup L) < NUM_GROUPS" and t: "unat (selectedTrack L) < NUM_TRACKS"
    and mem: "groupedTracks L (unat (selectedGroup L)) (unat (selectedTrack L))"
    and on: "trackState (tracks L (unat (selectedTrack L))) \<noteq> TRACK_STATE_OFF"
    and full: "currIdx (tracks L (unat (selectedTrack L))) + nframes > SAMPLE_LIMIT"
  shows "\<exists>L'. updateIndices L nframes = Inr L'
     \<and> currIdx (tracks L' (unat (selectedTrack L))) = SAMPLE_LIMIT
     \<and> state L' = SYSTEM_STATE_PLAYBACK
     \<and> endIdx (tracks L' (unat (selectedTrack L)))
         = max (endIdx (tracks L (unat (selectedTrack L)))) SAMPLE_LIMIT
     \<and> channelLeft (tracks L' (unat (selectedTrack L)))
         = channelLeft (tracks L (unat (selectedTrack L)))
     \<and> channelRight (tracks L' (unat (selectedTrack L)))
         = channelRight (tracks L (unat (selectedTrack L)))"
proof -
  let ?sg = "unat (selectedGroup L)" and ?t = "unat (selectedTrack L)"
  let ?m = "masterCurrIdx L + nframes"
  let ?L1 = "L\<lparr>masterCurrIdx := (if ?m > SAMPLE_LIMIT then SAMPLE_LIMIT else ?m)\<rparr>"
  let ?L2 = "updateIndices_loop ?sg (selectedTrack L) nframes 0 ?L1"
  let ?U = "updateTrackIndex ?sg (selectedTrack L) nframes ?t ?L1"
  let ?L' = "if state ?L2 = SYSTEM_STATE_PLAYBACK \<and> masterCurrIdx ?L2 > masterLength ?L2 ?sg
             then ?L2\<lparr>masterCurrIdx := 0\<rparr> else ?L2"
  have r: "updateIndices L nframes = Inr ?L'"
    using g by (simp add: updateIndices_def Let_def)
  have sel: "tracks ?L2 ?t = tracks ?U ?t" "state ?L2 = state ?U"
    using updateIndices_loop_selected [of 0 ?t "selectedTrack L" ?sg nframes ?L1] t by simp_all
  have pre: "groupedTracks ?L1 ?sg ?t" "trackState (tracks ?L1 ?t) \<noteq> TRACK_STATE_OFF"
    "unat (selectedTrack L) = ?t" "state ?L1 = SYSTEM_STATE_RECORDING"
    using rec mem on by simp_all
  have c: "currIdx (tracks ?U ?t) = SAMPLE_LIMIT"
    using updateTrackIndex_recording(1) [OF pre, of nframes] full by simp
  have e: "endIdx (tracks ?U ?t) = max (endIdx (tracks L ?t)) SAMPLE_LIMIT"
    using updateTrackIndex_recording(2) [OF pre, of nframes] c by simp
  have s: "state ?U = SYSTEM_STATE_PLAYBACK"
    using updateTrackIndex_recording_full(1) [OF pre, of nframes] full by simp
  have b: "channelLeft (tracks ?U ?t) = channelLeft (tracks L ?t)"
    "channelRight (tracks ?U ?t) = channelRight (tracks L ?t)"
    using updateTrackIndex_recording_full(2,3) [OF pre, of nframes] by simp_all
  have "currIdx (tracks ?L' ?t) = SAMPLE_LIMIT \<and> state ?L' = SYSTEM_STATE_PLAYBACK
     \<and> endIdx (tracks ?L' ?t) = max (endIdx (tracks L ?t)) SAMPLE_LIMIT
     \<and> channelLeft (tracks ?L' ?t) = channelLeft (tracks L ?t)
     \<and> channelRight (tracks ?L' ?t) = channelRight (tracks L ?t)"
    using sel c e s b by simp
  with r show ?thesis by blast
qed

end
